theory Spec2Isabelle
  imports Complex_Main
begin

section \<open>Tensors and the library primitives the tests call\<close>

text \<open>
  The quantisation operators of quant-pack work on floating-point tensors. The model takes
  the exact real number each float stands for, so every equation below is an equation of
  exact arithmetic (the tests compare with \<^verbatim>\<open>torch.allclose\<close>). A tensor is the list of its
  elements in row-major order: every operation of the operators is elementwise or a sum
  over all elements, so the shape beyond the leading dimension plays no role. A tensor
  with a per-channel bound is given as the list of its leading-dimension slices. The
  sources combine elementwise only tensors of one shape (the upstream gradient is made
  with \<^verbatim>\<open>randn_like\<close>); \<^const>\<open>zip\<close> stops at the shorter list, and a theorem whose
  statement depends on the shapes assumes them equal.
\<close>

type_synonym tensor = "real list"

type_synonym channels = "tensor list"

text \<open>\<^verbatim>\<open>torch.round\<close> rounds to the nearest integer, a tie to the even neighbour.\<close>

definition round_half_even :: "real \<Rightarrow> int" where
  "round_half_even v =
     (let f = \<lfloor>v\<rfloor>; r = v - of_int f
      in if r < 1 / 2 then f
         else if 1 / 2 < r then f + 1
         else if even f then f else f + 1)"

definition torch_round :: "real \<Rightarrow> real" where
  "torch_round v = of_int (round_half_even v)"

text \<open>\<^verbatim>\<open>torch.clamp(x, min, max)\<close> with two numbers: \<open>min(max(x, min), max)\<close>.\<close>

definition torch_clamp :: "real \<Rightarrow> real \<Rightarrow> real \<Rightarrow> real" where
  "torch_clamp v lo hi = min (max v lo) hi"

text \<open>
  \<^verbatim>\<open>2 ** k - 1\<close> for a Python integer \<open>k\<close> (a negative exponent gives a float).
  \<^verbatim>\<open>torch.sign\<close> is \<^const>\<open>sgn\<close> (zero at zero) and \<^verbatim>\<open>torch.abs\<close> is \<^const>\<open>abs\<close>.
\<close>

definition levels :: "int \<Rightarrow> real" where
  "levels k = (if 0 \<le> k then 2 ^ nat k - 1 else 1 / 2 ^ nat (- k) - 1)"

text \<open>Elementwise product of two tensors of one shape, and a mask cast to the dtype.\<close>

definition tmul :: "tensor \<Rightarrow> tensor \<Rightarrow> tensor" where
  "tmul a b = map2 (*) a b"

definition to_dtype :: "bool list \<Rightarrow> tensor" where
  "to_dtype m = map of_bool m"

section \<open>The masks of the backward pass\<close>

text \<open>
  From \<^verbatim>\<open>test_quant_num_grad_no_align_zero\<close> and \<^verbatim>\<open>test_clamp_num_grad\<close>:
  \<^verbatim>\<open>x_mask = (lb <= x) & (x <= ub)\<close>, \<^verbatim>\<open>mask_up = (x > ub)\<close>, \<^verbatim>\<open>mask_down = (x < lb)\<close>,
  for one element \<open>v\<close> of \<open>x\<close>.
\<close>

definition x_mask :: "real \<Rightarrow> real \<Rightarrow> real \<Rightarrow> bool" where
  "x_mask lb ub v = (lb \<le> v \<and> v \<le> ub)"

definition mask_up :: "real \<Rightarrow> real \<Rightarrow> bool" where
  "mask_up ub v = (v > ub)"

definition mask_down :: "real \<Rightarrow> real \<Rightarrow> bool" where
  "mask_down lb v = (v < lb)"

text \<open>\<^verbatim>\<open>d_x(dy, mask_x)\<close>: \<^verbatim>\<open>dy.clone() * mask_x.to(dy.dtype)\<close>.\<close>

definition d_x :: "tensor \<Rightarrow> bool list \<Rightarrow> tensor" where
  "d_x dy mask_x = tmul dy (to_dtype mask_x)"

text \<open>
  \<^verbatim>\<open>d_lb_ub(dy, d_i, N, sign_lb)\<close>: the three products are elementwise, the two sums run
  over all elements.
\<close>

definition d_lb_ub :: "tensor \<Rightarrow> tensor \<Rightarrow> real \<Rightarrow> real \<Rightarrow> real \<times> real" where
  "d_lb_ub dy d_i N sign_lb =
     (let d_delta = tmul dy d_i;
          d_ub = map (\<lambda>v. v / N) d_delta;
          d_lb = map2 (\<lambda>u g. - u - g * sign_lb) d_ub dy
      in (sum_list d_lb, sum_list d_ub))"

section \<open>The primitives of the operator that the tests call\<close>

text \<open>
  Modelled from the spec: the bound-clamp primitive \<^verbatim>\<open>clamp\<close> (the tests call it; its module is
  not among the sources). Section 4.1: \<open>y = min(max(x, lb), ub)\<close> elementwise; backward,
  \<open>dx = dy\<close> where \<open>lb \<le> x \<le> ub\<close>, else \<open>0\<close>; \<open>d_ub = sum(dy * 1[x > ub])\<close>;
  \<open>d_lb = sum(dy * 1[x < lb])\<close>. The backward returns \<open>(dx, d_lb, d_ub)\<close>.
\<close>

definition clamp :: "tensor \<Rightarrow> real \<Rightarrow> real \<Rightarrow> tensor" where
  "clamp x lb ub = map (\<lambda>v. min (max v lb) ub) x"

definition clamp_backward :: "tensor \<Rightarrow> tensor \<Rightarrow> real \<Rightarrow> real \<Rightarrow> tensor \<times> real \<times> real" where
  "clamp_backward dy x lb ub =
     (map2 (\<lambda>g v. if lb \<le> v \<and> v \<le> ub then g else 0) dy x,
      sum_list (map2 (\<lambda>g v. g * (if v < lb then 1 else 0)) dy x),
      sum_list (map2 (\<lambda>g v. g * (if v > ub then 1 else 0)) dy x))"

text \<open>
  Modelled from the spec: the straight-through round \<^verbatim>\<open>RoundSTE.apply\<close> (imported by the tests
  from \<^verbatim>\<open>quant_pack.core.quant.quantizers\<close>, not among the sources). Section 4.2: the forward
  value is the rounded one, and the backward treats the rounding as the identity.
\<close>

definition round_ste :: "real \<Rightarrow> real" where
  "round_ste v = torch_round v"

definition round_ste_backward :: "real \<Rightarrow> real" where
  "round_ste_backward g = g"

section \<open>The computations of the tests\<close>

subsection \<open>\<^verbatim>\<open>test_clamp_num_grad\<close>\<close>

text \<open>The expected bound gradients of \<^verbatim>\<open>clamp\<close> (lines 292 to 296), as \<open>(d_lb, d_ub)\<close>.\<close>

definition clamp_num_grad :: "tensor \<Rightarrow> tensor \<Rightarrow> real \<Rightarrow> real \<Rightarrow> real \<times> real" where
  "clamp_num_grad d_qx x lb ub =
     (let up = to_dtype (map (mask_up ub) x);
          down = to_dtype (map (mask_down lb) x);
          d_ub = sum_list (tmul d_qx up);
          d_lb = sum_list (tmul d_qx down)
      in (d_lb, d_ub))"

subsection \<open>\<^verbatim>\<open>test_quant_num_grad_align_zero\<close>\<close>

text \<open>
  The hand-written forward cache and gradients of the zero-aligned operator (lines 92 to
  106), which the test asserts to be the gradients of the operator. The result is
  \<open>(dx, d_lb, d_ub)\<close>.
\<close>

definition num_grad_align_zero ::
  "tensor \<Rightarrow> tensor \<Rightarrow> real \<Rightarrow> real \<Rightarrow> int \<Rightarrow> tensor \<times> real \<times> real" where
  "num_grad_align_zero d_qx x lb ub k =
     (let N = levels k;
          delta = (ub - lb) / N;
          z = torch_round (\<bar>lb\<bar> / delta);
          lb' = - z * delta;
          ub' = (N - z) * delta;
          mask = map (x_mask lb' ub') x;
          xc = map (\<lambda>v. torch_clamp v lb' ub') x;
          i = map (\<lambda>v. torch_round ((v - lb') / delta)) xc;
          x_sub = map (\<lambda>v. v - lb' - \<bar>lb\<bar>) xc;
          d_i = map2 (\<lambda>iv s. (iv - z) - s / delta) i x_sub;
          (d_lb, d_ub) = d_lb_ub d_qx d_i N (sgn lb);
          dx = d_x d_qx mask
      in (dx, d_lb, d_ub))"

subsection \<open>\<^verbatim>\<open>test_quant_num_grad_no_align_zero\<close>\<close>

text \<open>
  The composition of the free operator (lines 132 to 135):
  \<^verbatim>\<open>qx = round_((x_clamped - lb) / delta) * delta + lb\<close>.
\<close>

definition quant_no_align_zero :: "tensor \<Rightarrow> real \<Rightarrow> real \<Rightarrow> int \<Rightarrow> tensor" where
  "quant_no_align_zero x lb ub k =
     (let n = levels k;
          delta = (ub - lb) / n;
          x_clamped = clamp x lb ub
      in map (\<lambda>v. round_ste ((v - lb) / delta) * delta + lb) x_clamped)"

text \<open>The expected gradients (lines 136 to 143 and 151), as \<open>(dx, d_lb, d_ub)\<close>.\<close>

definition num_grad_no_align_zero ::
  "tensor \<Rightarrow> tensor \<Rightarrow> real \<Rightarrow> real \<Rightarrow> int \<Rightarrow> tensor \<times> real \<times> real" where
  "num_grad_no_align_zero d_qx x lb ub k =
     (let n = levels k;
          delta = (ub - lb) / n;
          x_clamped = clamp x lb ub;
          qi_diff = map (\<lambda>v. round_ste ((v - lb) / delta) - ((v - lb) / delta)) x_clamped;
          mask = map (x_mask lb ub) x;
          up = to_dtype (map (mask_up ub) x);
          down = to_dtype (map (mask_down lb) x);
          d_ub = sum_list (tmul d_qx up) + sum_list (map (\<lambda>v. v / n) (tmul d_qx qi_diff));
          d_lb = sum_list (tmul d_qx down) - sum_list (map (\<lambda>v. v / n) (tmul d_qx qi_diff))
      in (tmul d_qx (to_dtype mask), d_lb, d_ub))"

text \<open>
  The gradients \<^verbatim>\<open>qx.backward(d_qx)\<close> computes for that composition: reverse-mode
  differentiation, one step per operation of lines 133 to 135, last operation first.
  A gradient that reaches the 0-dim tensors \<open>delta\<close>, \<open>lb\<close> or \<open>ub\<close> through a broadcast
  is summed over all elements. The division \<open>s / delta\<close> passes \<open>g / delta\<close> to \<open>s\<close>
  and \<open>- g * s / delta\<^sup>2\<close> to \<open>delta\<close>; \<^verbatim>\<open>round_\<close> and \<^verbatim>\<open>clamp\<close> pass what their
  backward rules say. The result is \<open>(dx, d_lb, d_ub)\<close>.
\<close>

definition backward_no_align_zero ::
  "tensor \<Rightarrow> tensor \<Rightarrow> real \<Rightarrow> real \<Rightarrow> int \<Rightarrow> tensor \<times> real \<times> real" where
  "backward_no_align_zero d_qx x lb ub k =
     (let n = levels k;
          delta = (ub - lb) / n;
          x_clamped = clamp x lb ub;
          s = map (\<lambda>v. v - lb) x_clamped;
          t = map (\<lambda>v. v / delta) s;
          r = map round_ste t;
          \<comment> \<open>\<open>qx = r * delta + lb\<close>\<close>
          g_r = map (\<lambda>g. g * delta) d_qx;
          g_delta_mul = sum_list (tmul d_qx r);
          g_lb_add = sum_list d_qx;
          \<comment> \<open>\<open>r = round_(t)\<close>\<close>
          g_t = map round_ste_backward g_r;
          \<comment> \<open>\<open>t = s / delta\<close>\<close>
          g_s = map (\<lambda>g. g / delta) g_t;
          g_delta_div = sum_list (map2 (\<lambda>g v. - g * v / (delta * delta)) g_t s);
          \<comment> \<open>\<open>s = x_clamped - lb\<close>\<close>
          g_x_clamped = g_s;
          g_lb_sub = - sum_list g_s;
          \<comment> \<open>\<open>x_clamped = clamp(x, lb, ub)\<close>\<close>
          (dx, g_lb_clamp, g_ub_clamp) = clamp_backward g_x_clamped x lb ub;
          \<comment> \<open>\<open>delta = (ub - lb) / n\<close>\<close>
          g_delta = g_delta_mul + g_delta_div;
          g_ub_delta = g_delta / n;
          g_lb_delta = - g_delta / n
      in (dx, g_lb_add + g_lb_sub + g_lb_clamp + g_lb_delta, g_ub_clamp + g_ub_delta))"

subsection \<open>The forward pass of the zero-aligned operator\<close>

text \<open>
  The adjusted grid of \<^verbatim>\<open>test_quant_num_grad_align_zero\<close> (lines 93 to 97), as
  \<open>(N, delta, z, lb', ub')\<close>, and the grid index of every element (lines 99 and 100).
\<close>

definition align_zero_grid :: "real \<Rightarrow> real \<Rightarrow> int \<Rightarrow> real \<times> real \<times> real \<times> real \<times> real" where
  "align_zero_grid lb ub k =
     (let N = levels k;
          delta = (ub - lb) / N;
          z = torch_round (\<bar>lb\<bar> / delta);
          lb' = - z * delta;
          ub' = (N - z) * delta
      in (N, delta, z, lb', ub'))"

definition align_zero_index :: "tensor \<Rightarrow> real \<Rightarrow> real \<Rightarrow> int \<Rightarrow> tensor" where
  "align_zero_index x lb ub k =
     (let (N, delta, z, lb', ub') = align_zero_grid lb ub k;
          xc = map (\<lambda>v. torch_clamp v lb' ub') x
      in map (\<lambda>v. torch_round ((v - lb') / delta)) xc)"

text \<open>
  Modelled from the spec: the output step of the zero-aligned forward pass (the operator
  \<^verbatim>\<open>fake_linear_quant\<close> that the test calls is not among the sources). Section 4.3, step 4:
  \<open>y = lb' + i delta\<close>.
\<close>

definition quant_align_zero :: "tensor \<Rightarrow> real \<Rightarrow> real \<Rightarrow> int \<Rightarrow> tensor" where
  "quant_align_zero x lb ub k =
     (let (N, delta, z, lb', ub') = align_zero_grid lb ub k
      in map (\<lambda>i. lb' + i * delta) (align_zero_index x lb ub k))"

text \<open>
  Modelled from the spec: the operator \<^verbatim>\<open>fake_linear_quant(x, lb, ub, k, align_zero)\<close> with
  scalar bounds, by the mode flag (sections 4.3 and 4.4); the free branch is the composition
  of the test.
\<close>

definition fake_linear_quant :: "tensor \<Rightarrow> real \<Rightarrow> real \<Rightarrow> int \<Rightarrow> bool \<Rightarrow> tensor" where
  "fake_linear_quant x lb ub k align_zero =
     (if align_zero then quant_align_zero x lb ub k else quant_no_align_zero x lb ub k)"

subsection \<open>The entry point and its errors\<close>

datatype quant_error =
  InvalidBoundsError | InvalidBitWidthError | ShapeMismatchError | StaleCacheError

text \<open>A bound is a scalar or a vector with one entry per leading-dimension slice.\<close>

datatype bound = Scalar real | PerChannel "real list"

fun broadcastable :: "bound \<Rightarrow> channels \<Rightarrow> bool" where
  "broadcastable (Scalar b) x = True"
| "broadcastable (PerChannel bs) x = (length bs = length x)"

fun bound_at :: "bound \<Rightarrow> nat \<Rightarrow> real" where
  "bound_at (Scalar b) c = b"
| "bound_at (PerChannel bs) c = bs ! c"

fun bound_elems :: "bound \<Rightarrow> bound \<Rightarrow> (real \<times> real) list" where
  "bound_elems (Scalar l) (Scalar u) = [(l, u)]"
| "bound_elems (Scalar l) (PerChannel us) = map (\<lambda>u. (l, u)) us"
| "bound_elems (PerChannel ls) (Scalar u) = map (\<lambda>l. (l, u)) ls"
| "bound_elems (PerChannel ls) (PerChannel us) = zip ls us"

text \<open>
  Modelled from the spec: the entry point \<^verbatim>\<open>fake_quantize(x, lb, ub, k, align_zero)\<close> of
  section 6 with the errors of section 7 (the module is not among the sources).
  \<open>k < 1\<close> is an InvalidBitWidthError, a bound that is not broadcastable against the
  leading dimension of \<open>x\<close> a ShapeMismatchError, \<open>ub \<le> lb\<close> for some element of the bound
  pair an InvalidBoundsError; otherwise every slice is quantised with its own bounds.
\<close>

definition fake_quantize ::
  "channels \<Rightarrow> bound \<Rightarrow> bound \<Rightarrow> int \<Rightarrow> bool \<Rightarrow> quant_error + channels" where
  "fake_quantize x lb ub k align_zero =
     (if k < 1 then Inl InvalidBitWidthError
      else if \<not> (broadcastable lb x \<and> broadcastable ub x) then Inl ShapeMismatchError
      else if list_ex (\<lambda>(l, u). u \<le> l) (bound_elems lb ub) then Inl InvalidBoundsError
      else Inr (map (\<lambda>c. fake_linear_quant (x ! c) (bound_at lb c) (bound_at ub c) k align_zero)
                  [0..<length x]))"

subsection \<open>\<^verbatim>\<open>test_channel_quant_4d_param_grad\<close> and \<^verbatim>\<open>test_channel_quant_2d_param_grad\<close>\<close>

text \<open>
  \<^verbatim>\<open>_make_broadcast(t, x)\<close>: a 0-dim \<open>t\<close> is returned as it is; a vector of \<open>c\<close> entries is
  reshaped to \<open>(c, 1, ..., 1)\<close>, one \<open>1\<close> for each trailing dimension of \<open>x\<close>. The result is
  given by what torch broadcasting then places at every element of \<open>x\<close>: the scalar
  everywhere, or entry \<open>c\<close> of the vector at every element of slice \<open>c\<close>.
\<close>

definition make_broadcast :: "bound \<Rightarrow> channels \<Rightarrow> channels" where
  "make_broadcast t x =
     (case t of
        Scalar b \<Rightarrow> map (map (\<lambda>_. b)) x
      | PerChannel bs \<Rightarrow> map2 (\<lambda>b s. map (\<lambda>_. b) s) bs x)"

text \<open>Elementwise operations on tensors of one shape, slice by slice.\<close>

definition cmap :: "(real \<Rightarrow> real) \<Rightarrow> channels \<Rightarrow> channels" where
  "cmap f a = map (map f) a"

definition cmap2 :: "(real \<Rightarrow> real \<Rightarrow> real) \<Rightarrow> channels \<Rightarrow> channels \<Rightarrow> channels" where
  "cmap2 f a b = map2 (map2 f) a b"

text \<open>
  The composition with per-channel bounds (lines 189 to 192):
  \<^verbatim>\<open>qx = round_((x_clamped - lb) / delta) * delta + lb\<close>, where \<open>lb\<close> and \<open>ub\<close> are the
  broadcast bounds and \<^verbatim>\<open>clamp\<close> takes the bound of each element.
\<close>

definition channel_quant :: "channels \<Rightarrow> bound \<Rightarrow> bound \<Rightarrow> int \<Rightarrow> channels" where
  "channel_quant x lbp ubp k =
     (let lb = make_broadcast lbp x;
          ub = make_broadcast ubp x;
          n = levels k;
          delta = cmap (\<lambda>v. v / n) (cmap2 (-) ub lb);
          x_clamped = cmap2 min (cmap2 max x lb) ub
      in cmap2 (+) (cmap2 (*) (cmap round_ste (cmap2 (/) (cmap2 (-) x_clamped lb) delta)) delta) lb)"

text \<open>
  The expected gradients (lines 193 to 200 and 207), as \<open>(dx, d_lb, d_ub)\<close>;
  \<^verbatim>\<open>.sum(dim=(1, 2, 3))\<close> sums every slice.
\<close>

definition channel_num_grad ::
  "channels \<Rightarrow> channels \<Rightarrow> bound \<Rightarrow> bound \<Rightarrow> int \<Rightarrow> channels \<times> tensor \<times> tensor" where
  "channel_num_grad d_qx x lbp ubp k =
     (let lb = make_broadcast lbp x;
          ub = make_broadcast ubp x;
          n = levels k;
          delta = cmap (\<lambda>v. v / n) (cmap2 (-) ub lb);
          x_clamped = cmap2 min (cmap2 max x lb) ub;
          t = cmap2 (/) (cmap2 (-) x_clamped lb) delta;
          qi_diff = cmap2 (-) (cmap round_ste t) t;
          mask = cmap2 (\<lambda>p q. p * q) (cmap2 (\<lambda>l v. of_bool (l \<le> v)) lb x)
                                      (cmap2 (\<lambda>v u. of_bool (v \<le> u)) x ub);
          up = cmap2 (\<lambda>v u. of_bool (v > u)) x ub;
          down = cmap2 (\<lambda>v l. of_bool (v < l)) x lb;
          d_ub = map sum_list
                   (cmap2 (+) (cmap2 (*) d_qx up) (cmap (\<lambda>v. v / n) (cmap2 (*) d_qx qi_diff)));
          d_lb = map sum_list
                   (cmap2 (-) (cmap2 (*) d_qx down) (cmap (\<lambda>v. v / n) (cmap2 (*) d_qx qi_diff)))
      in (cmap2 (*) d_qx mask, d_lb, d_ub))"

subsection \<open>The backward entry point\<close>

text \<open>
  The closed-form gradients of one slice with scalar bounds, by the mode flag: the laws
  written out in \<^verbatim>\<open>test_quant_num_grad_align_zero\<close> and \<^verbatim>\<open>test_quant_num_grad_no_align_zero\<close>.
\<close>

definition backward_law ::
  "bool \<Rightarrow> tensor \<Rightarrow> tensor \<Rightarrow> real \<Rightarrow> real \<Rightarrow> int \<Rightarrow> tensor \<times> real \<times> real" where
  "backward_law align_zero dy x lb ub k =
     (if align_zero then num_grad_align_zero dy x lb ub k
      else num_grad_no_align_zero dy x lb ub k)"

text \<open>
  The gradient of a bound is summed over every dimension the bound was broadcast over: a
  per-channel bound keeps one entry per slice, a scalar bound sums them all.
\<close>

fun reduce_like :: "bound \<Rightarrow> real list \<Rightarrow> bound" where
  "reduce_like (Scalar b) gs = Scalar (sum_list gs)"
| "reduce_like (PerChannel bs) gs = PerChannel gs"

text \<open>
  Modelled from the spec: \<^verbatim>\<open>fake_quantize_backward\<close> of section 6 with the broadcast and reduce
  rule of section 4.5 (the module is not among the sources). The forward cache is given by
  the arguments of the forward call, from which the backward law recomputes it. The
  result is \<open>(dx, d_lb, d_ub)\<close>.
\<close>

definition fake_quantize_backward ::
  "channels \<Rightarrow> channels \<Rightarrow> bound \<Rightarrow> bound \<Rightarrow> int \<Rightarrow> bool \<Rightarrow> channels \<times> bound \<times> bound" where
  "fake_quantize_backward dy x lb ub k align_zero =
     (let g = map (\<lambda>c. backward_law align_zero (dy ! c) (x ! c) (bound_at lb c) (bound_at ub c) k)
                [0..<length x]
      in (map fst g, reduce_like lb (map (fst \<circ> snd) g), reduce_like ub (map (snd \<circ> snd) g)))"

subsection \<open>The fused kernel\<close>



subsection \<open>The reference composition of the zero-aligned operator\<close>



section \<open>Sums\<close>

lemma sum_list_map_divide:
  "sum_list (map (\<lambda>p. f p / c) ps) = sum_list (map f ps) / (c::real)"
  by (induction ps) (simp_all add: add_divide_distrib)

lemma sum_list_map_neg_sub:
  "sum_list (map (\<lambda>p. - f p - g p) ps) = - sum_list (map f ps) - (sum_list (map g ps) :: real)"
  by (induction ps) simp_all

lemma sum_list_map_add:
  "sum_list (map (\<lambda>p. f p + g p) ps) = sum_list (map f ps) + (sum_list (map g ps) :: real)"
  by (induction ps) simp_all

lemma sum_list_map_sub:
  "sum_list (map (\<lambda>p. f p - g p) ps) = sum_list (map f ps) - (sum_list (map g ps) :: real)"
  by (induction ps) simp_all

lemma zip_map_zip_left:
  "zip (map f (zip xs ys)) xs = map (\<lambda>p. (f p, fst p)) (zip xs ys)"
proof (induction xs arbitrary: ys)
  case Nil
  then show ?case by simp
next
  case (Cons a xs)
  then show ?case by (cases ys) simp_all
qed

lemma tmul_map_right: "tmul dy (map f x) = map2 (\<lambda>g v. g * f v) dy x"
  by (simp add: tmul_def map_zip_map2)

lemma tmul_to_dtype: "tmul dy (to_dtype (map P x)) = map2 (\<lambda>g v. g * of_bool (P v)) dy x"
  by (simp add: tmul_def to_dtype_def map_zip_map2)

lemma d_lb_ub_sums:
  "d_lb_ub dy (map D x) N s =
     (- (sum_list (map2 (\<lambda>g v. g * D v) dy x) / N) - sum_list (map2 (\<lambda>g v. g * s) dy x),
      sum_list (map2 (\<lambda>g v. g * D v) dy x) / N)"
proof -
  have ub: "sum_list (map (\<lambda>v. v / N) (tmul dy (map D x)))
      = sum_list (map2 (\<lambda>g v. g * D v) dy x) / N"
    by (simp add: tmul_map_right sum_list_map_divide [symmetric] case_prod_unfold comp_def)
  have "map2 (\<lambda>u g. - u - g * s) (map (\<lambda>v. v / N) (tmul dy (map D x))) dy
      = map (\<lambda>p. - (fst p * D (snd p) / N) - fst p * s) (zip dy x)"
    by (simp add: tmul_map_right zip_map_zip_left case_prod_unfold comp_def)
  then have lb: "sum_list (map2 (\<lambda>u g. - u - g * s) (map (\<lambda>v. v / N) (tmul dy (map D x))) dy)
      = - (sum_list (map2 (\<lambda>g v. g * D v) dy x) / N) - sum_list (map2 (\<lambda>g v. g * s) dy x)"
    by (simp add: sum_list_map_neg_sub sum_list_map_divide case_prod_unfold)
  show ?thesis
    unfolding d_lb_ub_def Let_def using ub lb by simp
qed

lemma levels_pos: "1 \<le> k \<Longrightarrow> levels k = 2 ^ nat k - 1"
  by (simp add: levels_def)

lemma levels_ge_1: "1 \<le> k \<Longrightarrow> 1 \<le> levels k"
proof -
  assume k: "1 \<le> k"
  then have "(2::real) ^ 1 \<le> 2 ^ nat k"
    by (intro power_increasing) auto
  with k show ?thesis by (simp add: levels_def)
qed

lemma map2_ignore_right:
  "length dy = length x \<Longrightarrow> map2 (\<lambda>g v. f g) dy x = map f dy"
  by (induction dy x rule: list_induct2) simp_all

lemma d_i_as_map:
  "map2 (\<lambda>iv s. (iv - z) - s / delta) (map I (map C x)) (map S (map C x))
     = map (\<lambda>v. (I (C v) - z) - S (C v) / delta) x"
  by (induction x) simp_all

lemma num_grad_align_zero_eq:
  assumes "1 \<le> k" and "length dy = length x"
  shows "num_grad_align_zero dy x lb ub k =
    (let N = 2 ^ nat k - 1;
         delta = (ub - lb) / N;
         z = torch_round (\<bar>lb\<bar> / delta);
         lb' = - z * delta;
         ub' = (N - z) * delta;
         xc = (\<lambda>v. torch_clamp v lb' ub');
         i = (\<lambda>v. torch_round ((xc v - lb') / delta));
         x_sub = (\<lambda>v. xc v - lb' - \<bar>lb\<bar>);
         d_i = (\<lambda>v. (i v - z) - x_sub v / delta);
         d_ub = sum_list (map2 (\<lambda>g v. g * d_i v) dy x) / N;
         d_lb = - d_ub - sum_list (map (\<lambda>g. g * sgn lb) dy)
     in (map2 (\<lambda>g v. g * of_bool (lb' \<le> v \<and> v \<le> ub')) dy x, d_lb, d_ub))"
proof -
  define N :: real where "N = 2 ^ nat k - 1"
  define delta where "delta = (ub - lb) / N"
  define z where "z = torch_round (\<bar>lb\<bar> / delta)"
  define lb' where "lb' = - z * delta"
  define ub' where "ub' = (N - z) * delta"
  define D where "D = (\<lambda>v. (torch_round ((torch_clamp v lb' ub' - lb') / delta) - z)
                       - (torch_clamp v lb' ub' - lb' - \<bar>lb\<bar>) / delta)"
  have lev: "levels k = N"
    using assms(1) by (simp add: levels_pos N_def)
  have di: "map2 (\<lambda>iv s. (iv - z) - s / delta)
        (map (\<lambda>v. torch_round ((v - lb') / delta)) (map (\<lambda>v. torch_clamp v lb' ub') x))
        (map (\<lambda>v. v - lb' - \<bar>lb\<bar>) (map (\<lambda>v. torch_clamp v lb' ub') x)) = map D x"
    unfolding D_def by (rule d_i_as_map)
  have lhs: "num_grad_align_zero dy x lb ub k =
      (d_x dy (map (x_mask lb' ub') x),
       - (sum_list (map2 (\<lambda>g v. g * D v) dy x) / N) - sum_list (map2 (\<lambda>g v. g * sgn lb) dy x),
       sum_list (map2 (\<lambda>g v. g * D v) dy x) / N)"
    unfolding num_grad_align_zero_def Let_def lev
    unfolding delta_def [symmetric] z_def [symmetric]
    unfolding lb'_def [symmetric] ub'_def [symmetric] di d_lb_ub_sums
    by simp
  have rhs: "(let N = 2 ^ nat k - 1;
         delta = (ub - lb) / N;
         z = torch_round (\<bar>lb\<bar> / delta);
         lb' = - z * delta;
         ub' = (N - z) * delta;
         xc = (\<lambda>v. torch_clamp v lb' ub');
         i = (\<lambda>v. torch_round ((xc v - lb') / delta));
         x_sub = (\<lambda>v. xc v - lb' - \<bar>lb\<bar>);
         d_i = (\<lambda>v. (i v - z) - x_sub v / delta);
         d_ub = sum_list (map2 (\<lambda>g v. g * d_i v) dy x) / N;
         d_lb = - d_ub - sum_list (map (\<lambda>g. g * sgn lb) dy)
     in (map2 (\<lambda>g v. g * of_bool (lb' \<le> v \<and> v \<le> ub')) dy x, d_lb, d_ub))
     = (map2 (\<lambda>g v. g * of_bool (lb' \<le> v \<and> v \<le> ub')) dy x,
        - (sum_list (map2 (\<lambda>g v. g * D v) dy x) / N) - sum_list (map (\<lambda>g. g * sgn lb) dy),
        sum_list (map2 (\<lambda>g v. g * D v) dy x) / N)"
    unfolding Let_def N_def [symmetric]
    unfolding delta_def [symmetric] z_def [symmetric]
    unfolding lb'_def [symmetric] ub'_def [symmetric]
    by (simp add: D_def)
  show ?thesis
    unfolding lhs rhs d_x_def tmul_to_dtype x_mask_def map2_ignore_right [OF assms(2)]
    by (rule refl)
qed

lemma clamp_backward_eq:
  "clamp_backward dy x lb ub =
     (map2 (\<lambda>g v. g * of_bool (x_mask lb ub v)) dy x,
      sum_list (map2 (\<lambda>g v. g * of_bool (mask_down lb v)) dy x),
      sum_list (map2 (\<lambda>g v. g * of_bool (mask_up ub v)) dy x))"
proof -
  have a: "(\<lambda>g v. if lb \<le> v \<and> v \<le> ub then g else 0) = (\<lambda>(g::real) v. g * of_bool (x_mask lb ub v))"
    by (auto simp: x_mask_def fun_eq_iff)
  have b: "(\<lambda>g v. g * (if v < lb then 1 else 0)) = (\<lambda>(g::real) v. g * of_bool (mask_down lb v))"
    by (auto simp: mask_down_def fun_eq_iff)
  have c: "(\<lambda>g v. g * (if v > ub then 1 else 0)) = (\<lambda>(g::real) v. g * of_bool (mask_up ub v))"
    by (auto simp: mask_up_def fun_eq_iff)
  show ?thesis unfolding clamp_backward_def a b c by (rule refl)
qed

lemma num_grad_no_align_zero_sums:
  "num_grad_no_align_zero dy x lb ub k =
     (let n = levels k;
          Q = (\<lambda>v. round_ste ((min (max v lb) ub - lb) / ((ub - lb) / n))
                    - (min (max v lb) ub - lb) / ((ub - lb) / n))
      in (map2 (\<lambda>g v. g * of_bool (x_mask lb ub v)) dy x,
          sum_list (map2 (\<lambda>g v. g * of_bool (mask_down lb v)) dy x)
            - sum_list (map2 (\<lambda>g v. g * Q v) dy x) / n,
          sum_list (map2 (\<lambda>g v. g * of_bool (mask_up ub v)) dy x)
            + sum_list (map2 (\<lambda>g v. g * Q v) dy x) / n))"
  unfolding num_grad_no_align_zero_def Let_def clamp_def map_map comp_def
    tmul_to_dtype tmul_map_right sum_list_map_divide
  by (simp add: map_zip_map2)

lemma backward_no_align_zero_sums:
  assumes d: "(ub - lb) / levels k \<noteq> 0" and len: "length dy = length x"
  shows "backward_no_align_zero dy x lb ub k =
     (let n = levels k;
          Q = (\<lambda>v. round_ste ((min (max v lb) ub - lb) / ((ub - lb) / n))
                    - (min (max v lb) ub - lb) / ((ub - lb) / n))
      in (map2 (\<lambda>g v. g * of_bool (x_mask lb ub v)) dy x,
          sum_list (map2 (\<lambda>g v. g * of_bool (mask_down lb v)) dy x)
            - sum_list (map2 (\<lambda>g v. g * Q v) dy x) / n,
          sum_list (map2 (\<lambda>g v. g * of_bool (mask_up ub v)) dy x)
            + sum_list (map2 (\<lambda>g v. g * Q v) dy x) / n))"
proof -
  define n where "n = levels k"
  define delta where "delta = (ub - lb) / n"
  define S where "S = (\<lambda>v. min (max v lb) ub - lb)"
  define R where "R = (\<lambda>v. round_ste (S v / delta))"
  have dn: "delta \<noteq> 0" using d by (simp add: delta_def n_def)
  have gs: "map (\<lambda>g. g / delta) (map round_ste_backward (map (\<lambda>g. g * delta) dy)) = dy"
    using dn by (simp add: round_ste_backward_def comp_def)
  have mul: "sum_list (tmul dy (map round_ste (map (\<lambda>v. v / delta) (map (\<lambda>v. v - lb) (clamp x lb ub)))))
      = sum_list (map2 (\<lambda>g v. g * R v) dy x)"
    by (simp add: clamp_def comp_def tmul_map_right R_def S_def)
  have dv: "sum_list (map2 (\<lambda>g v. - g * v / (delta * delta))
        (map round_ste_backward (map (\<lambda>g. g * delta) dy)) (map (\<lambda>v. v - lb) (clamp x lb ub)))
      = sum_list (map2 (\<lambda>g v. - (g * (S v / delta))) dy x)"
    using dn by (simp add: clamp_def comp_def round_ste_backward_def zip_map_map S_def
        case_prod_unfold)
  have gd: "sum_list (map2 (\<lambda>g v. g * R v) dy x) + sum_list (map2 (\<lambda>g v. - (g * (S v / delta))) dy x)
      = sum_list (map2 (\<lambda>g v. g * (R v - S v / delta)) dy x)"
    by (simp add: sum_list_map_add [symmetric] case_prod_unfold algebra_simps)
  show ?thesis
    unfolding backward_no_align_zero_def Let_def n_def [symmetric]
    unfolding delta_def [symmetric] gs mul dv gd clamp_backward_eq
    by (simp add: R_def S_def)
qed

lemma levels_delta_nonzero:
  assumes "1 \<le> k" and "lb < ub"
  shows "0 < (ub - lb) / levels k"
  using levels_ge_1 [OF assms(1)] assms(2) by simp

section \<open>Properties of the masks\<close>

lemma mask_cases:
  assumes "lb \<le> ub"
  shows "(x_mask lb ub v \<and> \<not> mask_up ub v \<and> \<not> mask_down lb v)
       \<or> (\<not> x_mask lb ub v \<and> mask_up ub v \<and> \<not> mask_down lb v)
       \<or> (\<not> x_mask lb ub v \<and> \<not> mask_up ub v \<and> mask_down lb v)"
  using assms unfolding x_mask_def mask_up_def mask_down_def by linarith

section \<open>Rounding\<close>

lemma round_half_even_of_int [simp]: "round_half_even (of_int n) = n"
  by (simp add: round_half_even_def)

lemma torch_round_of_int [simp]: "torch_round (of_int n) = of_int n"
  by (simp add: torch_round_def)

lemma torch_round_0 [simp]: "torch_round 0 = 0"
  using torch_round_of_int [of 0] by simp

lemma round_half_even_lower: "of_int n \<le> v \<Longrightarrow> n \<le> round_half_even v"
proof -
  assume "of_int n \<le> v"
  then have "n \<le> \<lfloor>v\<rfloor>" by (simp add: le_floor_iff)
  then show ?thesis by (auto simp: round_half_even_def Let_def)
qed

lemma round_half_even_upper: "v \<le> of_int n \<Longrightarrow> round_half_even v \<le> n"
proof -
  assume le: "v \<le> of_int n"
  then have fl: "\<lfloor>v\<rfloor> \<le> n" by (simp add: floor_le_iff)
  show ?thesis
  proof (cases "\<lfloor>v\<rfloor> = n")
    case True
    then have "v = of_int n" using le of_int_floor_le [of v] by linarith
    then show ?thesis by simp
  next
    case False
    with fl have "\<lfloor>v\<rfloor> + 1 \<le> n" by simp
    then show ?thesis by (auto simp: round_half_even_def Let_def)
  qed
qed

lemma levels_of_int: "1 \<le> k \<Longrightarrow> levels k = of_int (2 ^ nat k - 1)"
  by (simp add: levels_def)

section \<open>Gradients of a tensor split in two\<close>

lemma map2_append:
  "length dy1 = length x1 \<Longrightarrow> map2 f (dy1 @ dy2) (x1 @ x2) = map2 f dy1 x1 @ map2 f dy2 x2"
  by simp

lemma num_grad_no_align_zero_append:
  assumes "length dy1 = length x1"
  shows "num_grad_no_align_zero (dy1 @ dy2) (x1 @ x2) lb ub k =
     (fst (num_grad_no_align_zero dy1 x1 lb ub k) @ fst (num_grad_no_align_zero dy2 x2 lb ub k),
      fst (snd (num_grad_no_align_zero dy1 x1 lb ub k))
        + fst (snd (num_grad_no_align_zero dy2 x2 lb ub k)),
      snd (snd (num_grad_no_align_zero dy1 x1 lb ub k))
        + snd (snd (num_grad_no_align_zero dy2 x2 lb ub k)))"
  unfolding num_grad_no_align_zero_sums Let_def map2_append [OF assms]
  by (simp add: add_divide_distrib diff_divide_distrib)

lemma num_grad_align_zero_sums:
  "num_grad_align_zero dy x lb ub k =
    (let N = levels k;
         delta = (ub - lb) / N;
         z = torch_round (\<bar>lb\<bar> / delta);
         lb' = - z * delta;
         ub' = (N - z) * delta;
         D = (\<lambda>v. (torch_round ((torch_clamp v lb' ub' - lb') / delta) - z)
                       - (torch_clamp v lb' ub' - lb' - \<bar>lb\<bar>) / delta)
     in (map2 (\<lambda>g v. g * of_bool (x_mask lb' ub' v)) dy x,
         - (sum_list (map2 (\<lambda>g v. g * D v) dy x) / N) - sum_list (map2 (\<lambda>g v. g * sgn lb) dy x),
         sum_list (map2 (\<lambda>g v. g * D v) dy x) / N))"
proof -
  define N where "N = levels k"
  define delta where "delta = (ub - lb) / N"
  define z where "z = torch_round (\<bar>lb\<bar> / delta)"
  define lb' where "lb' = - z * delta"
  define ub' where "ub' = (N - z) * delta"
  define D where "D = (\<lambda>v. (torch_round ((torch_clamp v lb' ub' - lb') / delta) - z)
                       - (torch_clamp v lb' ub' - lb' - \<bar>lb\<bar>) / delta)"
  have di: "map2 (\<lambda>iv s. (iv - z) - s / delta)
        (map (\<lambda>v. torch_round ((v - lb') / delta)) (map (\<lambda>v. torch_clamp v lb' ub') x))
        (map (\<lambda>v. v - lb' - \<bar>lb\<bar>) (map (\<lambda>v. torch_clamp v lb' ub') x)) = map D x"
    unfolding D_def by (rule d_i_as_map)
  have lhs: "num_grad_align_zero dy x lb ub k =
      (map2 (\<lambda>g v. g * of_bool (x_mask lb' ub' v)) dy x,
       - (sum_list (map2 (\<lambda>g v. g * D v) dy x) / N) - sum_list (map2 (\<lambda>g v. g * sgn lb) dy x),
       sum_list (map2 (\<lambda>g v. g * D v) dy x) / N)"
    unfolding num_grad_align_zero_def Let_def N_def [symmetric]
    unfolding delta_def [symmetric] z_def [symmetric]
    unfolding lb'_def [symmetric] ub'_def [symmetric] di d_lb_ub_sums d_x_def tmul_to_dtype
    by simp
  show ?thesis
    unfolding lhs Let_def N_def [symmetric]
    unfolding delta_def [symmetric] z_def [symmetric]
    unfolding lb'_def [symmetric] ub'_def [symmetric]
    by (simp add: D_def)
qed

lemma num_grad_align_zero_append:
  assumes "length dy1 = length x1"
  shows "num_grad_align_zero (dy1 @ dy2) (x1 @ x2) lb ub k =
     (fst (num_grad_align_zero dy1 x1 lb ub k) @ fst (num_grad_align_zero dy2 x2 lb ub k),
      fst (snd (num_grad_align_zero dy1 x1 lb ub k))
        + fst (snd (num_grad_align_zero dy2 x2 lb ub k)),
      snd (snd (num_grad_align_zero dy1 x1 lb ub k))
        + snd (snd (num_grad_align_zero dy2 x2 lb ub k)))"
  unfolding num_grad_align_zero_sums Let_def map2_append [OF assms]
  by (simp add: add_divide_distrib diff_divide_distrib)

section \<open>One saturated element\<close>

lemma torch_round_levels: "1 \<le> k \<Longrightarrow> torch_round (levels k) = levels k"
  unfolding levels_of_int by (rule torch_round_of_int)

lemma free_single_above:
  assumes "1 \<le> k" and "lb < ub" and "ub < v"
  shows "num_grad_no_align_zero [g] [v] lb ub k = ([0], 0, g)"
proof -
  have n: "levels k = of_int (2 ^ nat k - 1)" by (rule levels_of_int [OF assms(1)])
  have n0: "levels k \<noteq> 0" using levels_ge_1 [OF assms(1)] by simp
  have c: "min (max v lb) ub = ub" using assms by simp
  have q: "(ub - lb) / ((ub - lb) / levels k) = levels k" using assms n0 by simp
  have r: "round_ste (levels k) = levels k"
    unfolding round_ste_def by (rule torch_round_levels [OF assms(1)])
  show ?thesis
    unfolding num_grad_no_align_zero_sums Let_def
    using assms by (simp add: c q r x_mask_def mask_up_def mask_down_def)
qed

lemma free_single_below:
  assumes "1 \<le> k" and "lb < ub" and "v < lb"
  shows "num_grad_no_align_zero [g] [v] lb ub k = ([0], g, 0)"
proof -
  have c: "min (max v lb) ub = lb" using assms by simp
  show ?thesis
    unfolding num_grad_no_align_zero_sums Let_def
    using assms by (simp add: c round_ste_def x_mask_def mask_up_def mask_down_def)
qed

lemma align_zero_single_saturated:
  assumes k: "1 \<le> k" and b: "lb < ub"
  defines "N \<equiv> levels k"
  defines "delta \<equiv> (ub - lb) / N"
  defines "z \<equiv> torch_round (\<bar>lb\<bar> / delta)"
  assumes sat: "(N - z) * delta < v \<or> v < - z * delta"
  shows "num_grad_align_zero [g] [v] lb ub k =
     ([0], - (g * (\<bar>lb\<bar> / delta - z) / N) - g * sgn lb, g * (\<bar>lb\<bar> / delta - z) / N)"
proof -
  have n: "N = of_int (2 ^ nat k - 1)" unfolding N_def by (rule levels_of_int [OF k])
  have d: "0 < delta" unfolding delta_def N_def by (rule levels_delta_nonzero [OF k b])
  have n1: "1 \<le> N" unfolding N_def by (rule levels_ge_1 [OF k])
  have le: "- z * delta \<le> (N - z) * delta"
  proof -
    have "(N - z) * delta - (- z * delta) = N * delta" by (simp add: algebra_simps)
    moreover have "0 \<le> N * delta" using d n1 by simp
    ultimately show ?thesis by linarith
  qed
  define D where "D = (\<lambda>v. (torch_round ((torch_clamp v (- z * delta) ((N - z) * delta)
                             - (- z * delta)) / delta) - z)
                       - (torch_clamp v (- z * delta) ((N - z) * delta) - (- z * delta) - \<bar>lb\<bar>) / delta)"
  have Dv: "D v = \<bar>lb\<bar> / delta - z"
  proof -
    from sat show ?thesis
    proof
      assume up: "(N - z) * delta < v"
      then have c: "torch_clamp v (- z * delta) ((N - z) * delta) = (N - z) * delta"
        using le by (simp add: torch_clamp_def)
      have t: "((N - z) * delta - (- z * delta)) / delta = N"
        using d by (simp add: field_simps)
      have r: "torch_round N = N" unfolding N_def by (rule torch_round_levels [OF k])
      show ?thesis unfolding D_def c t r using d by (simp add: field_simps)
    next
      assume down: "v < - z * delta"
      then have c: "torch_clamp v (- z * delta) ((N - z) * delta) = - z * delta"
        using le by (simp add: torch_clamp_def)
      show ?thesis unfolding D_def c using d by (simp add: field_simps)
    qed
  qed
  have m: "\<not> x_mask (- z * delta) ((N - z) * delta) v"
    using sat le by (auto simp: x_mask_def)
  have "num_grad_align_zero [g] [v] lb ub k =
      ([g * of_bool (x_mask (- z * delta) ((N - z) * delta) v)],
       - (g * D v / N) - g * sgn lb, g * D v / N)"
    unfolding num_grad_align_zero_sums Let_def N_def [symmetric]
    unfolding delta_def [symmetric] z_def [symmetric] D_def
    by simp
  then show ?thesis unfolding Dv using m by simp
qed

section \<open>The grid\<close>

lemma index_range:
  assumes d: "0 < delta" and U: "U = L + of_int n * delta" and n: "0 \<le> n"
  shows "\<exists>j. 0 \<le> j \<and> j \<le> n \<and> torch_round ((min (max v L) U - L) / delta) = of_int j"
proof -
  have LU: "L \<le> U" using d n U by simp
  define t where "t = (min (max v L) U - L) / delta"
  have t0: "0 \<le> t" unfolding t_def using d LU by simp
  have "min (max v L) U - L \<le> of_int n * delta" using U by simp
  then have tn: "t \<le> of_int n" unfolding t_def using d by (simp add: pos_divide_le_eq)
  have "0 \<le> round_half_even t" using round_half_even_lower [of 0 t] t0 by simp
  moreover have "round_half_even t \<le> n" by (rule round_half_even_upper [OF tn])
  ultimately show ?thesis unfolding t_def [symmetric] torch_round_def by blast
qed

lemma index_fixed:
  assumes d: "0 < delta" and U: "U = L + of_int n * delta" and j: "0 \<le> j" "j \<le> n"
  shows "torch_round ((min (max (L + of_int j * delta) L) U - L) / delta) = of_int j"
proof -
  have a: "L \<le> L + of_int j * delta" using d j by simp
  have "of_int j * delta \<le> of_int n * delta" using d j by simp
  then have b: "L + of_int j * delta \<le> U" using U by simp
  have "(min (max (L + of_int j * delta) L) U - L) / delta = of_int j"
    using a b d by (simp add: max_absorb1 min_absorb1)
  then show ?thesis by simp
qed

lemma align_zero_grid_bounds:
  assumes k: "1 \<le> k" and b: "lb < ub"
    and g: "align_zero_grid lb ub k = (N, delta, z, lb', ub')"
  shows "N = of_int (2 ^ nat k - 1)" and "0 < delta" and "delta = (ub - lb) / N"
    and "ub' = lb' + of_int (2 ^ nat k - 1) * delta" and "lb' = - z * delta"
    and "z = torch_round (\<bar>lb\<bar> / delta)"
proof -
  have N: "N = levels k" and dl: "delta = (ub - lb) / N" and z: "z = torch_round (\<bar>lb\<bar> / delta)"
    and l: "lb' = - z * delta" and u: "ub' = (N - z) * delta"
    using g by (auto simp: align_zero_grid_def Let_def)
  show Ni: "N = of_int (2 ^ nat k - 1)" unfolding N by (rule levels_of_int [OF k])
  show "0 < delta" unfolding dl N by (rule levels_delta_nonzero [OF k b])
  show "delta = (ub - lb) / N" by (rule dl)
  have "ub' = lb' + N * delta" unfolding l u by (simp add: algebra_simps)
  then show "ub' = lb' + of_int (2 ^ nat k - 1) * delta" unfolding Ni .
  show "lb' = - z * delta" by (rule l)
  show "z = torch_round (\<bar>lb\<bar> / delta)" by (rule z)
qed

section \<open>The forward pass, element by element\<close>

lemma quant_no_align_zero_map:
  "quant_no_align_zero x lb ub k =
     map (\<lambda>v. torch_round ((min (max v lb) ub - lb) / ((ub - lb) / levels k))
                 * ((ub - lb) / levels k) + lb) x"
  by (simp add: quant_no_align_zero_def Let_def clamp_def round_ste_def comp_def)

lemma quant_align_zero_map:
  assumes "align_zero_grid lb ub k = (N, delta, z, lb', ub')"
  shows "quant_align_zero x lb ub k =
     map (\<lambda>v. lb' + torch_round ((min (max v lb') ub' - lb') / delta) * delta) x"
  by (simp add: quant_align_zero_def align_zero_index_def assms torch_clamp_def comp_def)

lemma free_on_grid:
  assumes k: "1 \<le> k" and b: "lb < ub" and v: "v \<in> set (quant_no_align_zero x lb ub k)"
  shows "\<exists>i::int. 0 \<le> i \<and> i \<le> 2 ^ nat k - 1
           \<and> v = lb + of_int i * ((ub - lb) / (2 ^ nat k - 1))"
proof -
  define delta where "delta = (ub - lb) / levels k"
  have d: "0 < delta" unfolding delta_def by (rule levels_delta_nonzero [OF k b])
  have n: "levels k = of_int (2 ^ nat k - 1)" by (rule levels_of_int [OF k])
  have n0: "(0::int) \<le> 2 ^ nat k - 1" by simp
  have U: "ub = lb + of_int (2 ^ nat k - 1) * delta"
    unfolding delta_def n [symmetric] using levels_ge_1 [OF k] by simp
  from v obtain w where
    w: "v = torch_round ((min (max w lb) ub - lb) / delta) * delta + lb"
    unfolding quant_no_align_zero_map delta_def by auto
  from index_range [OF d U n0, of w] obtain j where
    j: "0 \<le> j" "j \<le> 2 ^ nat k - 1" "torch_round ((min (max w lb) ub - lb) / delta) = of_int j"
    by blast
  have "v = lb + of_int j * delta"
    unfolding w j(3) by simp
  then have "v = lb + of_int j * ((ub - lb) / (2 ^ nat k - 1))"
    unfolding delta_def levels_pos [OF k] .
  with j(1,2) show ?thesis by blast
qed

lemma zero_aligned_on_grid:
  assumes k: "1 \<le> k" and b: "lb < ub"
    and g: "align_zero_grid lb ub k = (N, delta, z, lb', ub')"
    and v: "v \<in> set (quant_align_zero x lb ub k)"
  shows "\<exists>i::int. 0 \<le> i \<and> i \<le> 2 ^ nat k - 1 \<and> v = lb' + of_int i * delta"
proof -
  note gb = align_zero_grid_bounds [OF k b g]
  have d: "0 < delta" by (rule gb(2))
  have U: "ub' = lb' + of_int (2 ^ nat k - 1) * delta" by (rule gb(4))
  have n0: "(0::int) \<le> 2 ^ nat k - 1" by simp
  from v obtain w where
    w: "v = lb' + torch_round ((min (max w lb') ub' - lb') / delta) * delta"
    unfolding quant_align_zero_map [OF g] by auto
  from index_range [OF d U n0, of w] obtain j where
    j: "0 \<le> j" "j \<le> 2 ^ nat k - 1" "torch_round ((min (max w lb') ub' - lb') / delta) = of_int j"
    by blast
  have "v = lb' + of_int j * delta" unfolding w j(3) by simp
  with j(1,2) show ?thesis by blast
qed

lemma align_zero_index_range:
  assumes k: "1 \<le> k" and b: "lb < ub" and i: "i \<in> set (align_zero_index x lb ub k)"
  shows "\<exists>j::int. 0 \<le> j \<and> j \<le> 2 ^ nat k - 1 \<and> i = of_int j"
proof -
  obtain N delta z lb' ub' where g: "align_zero_grid lb ub k = (N, delta, z, lb', ub')"
    by (metis prod_cases5)
  note gb = align_zero_grid_bounds [OF k b g]
  have n0: "(0::int) \<le> 2 ^ nat k - 1" by simp
  from i obtain w where w: "i = torch_round ((min (max w lb') ub' - lb') / delta)"
    unfolding align_zero_index_def g by (auto simp: torch_clamp_def)
  from index_range [OF gb(2) gb(4) n0, of w] show ?thesis unfolding w by blast
qed

lemma zero_point_range:
  assumes k: "1 \<le> k" and b: "lb < ub" and l0: "lb \<le> 0" and u0: "0 \<le> ub"
  shows "0 \<le> round_half_even (\<bar>lb\<bar> / ((ub - lb) / levels k))
       \<and> round_half_even (\<bar>lb\<bar> / ((ub - lb) / levels k)) \<le> 2 ^ nat k - 1"
proof -
  define t where "t = \<bar>lb\<bar> / ((ub - lb) / levels k)"
  have n1: "1 \<le> levels k" by (rule levels_ge_1 [OF k])
  have d: "0 < (ub - lb) / levels k" by (rule levels_delta_nonzero [OF k b])
  have t0: "0 \<le> t" unfolding t_def by (rule divide_nonneg_pos [OF abs_ge_zero d])
  have "\<bar>lb\<bar> \<le> ub - lb" using l0 u0 by simp
  moreover have "levels k * ((ub - lb) / levels k) = ub - lb" using n1 by simp
  ultimately have "\<bar>lb\<bar> \<le> levels k * ((ub - lb) / levels k)" by simp
  then have "t \<le> levels k" unfolding t_def by (rule iffD2 [OF pos_divide_le_eq [OF d]])
  then have tn: "t \<le> of_int (2 ^ nat k - 1)" unfolding levels_of_int [OF k] .
  have "0 \<le> round_half_even t" using round_half_even_lower [of 0 t] t0 by simp
  moreover have "round_half_even t \<le> 2 ^ nat k - 1" by (rule round_half_even_upper [OF tn])
  ultimately show ?thesis unfolding t_def by simp
qed

lemma zero_on_grid:
  assumes k: "1 \<le> k" and b: "lb < ub" and l0: "lb \<le> 0" and u0: "0 \<le> ub"
    and g: "align_zero_grid lb ub k = (N, delta, z, lb', ub')"
  shows "\<exists>i::int. 0 \<le> i \<and> i \<le> 2 ^ nat k - 1 \<and> 0 = lb' + of_int i * delta"
proof -
  note gb = align_zero_grid_bounds [OF k b g]
  have dl: "delta = (ub - lb) / levels k"
    unfolding gb(3) gb(1) levels_of_int [OF k] by (rule refl)
  have z: "z = of_int (round_half_even (\<bar>lb\<bar> / delta))"
    unfolding gb(6) torch_round_def by (rule refl)
  have "0 = lb' + of_int (round_half_even (\<bar>lb\<bar> / delta)) * delta"
    unfolding gb(5) z by simp
  then show ?thesis using zero_point_range [OF k b l0 u0] unfolding dl by blast
qed

section \<open>Quantising twice\<close>

lemma free_idempotent:
  assumes k: "1 \<le> k" and b: "lb < ub"
  shows "quant_no_align_zero (quant_no_align_zero x lb ub k) lb ub k = quant_no_align_zero x lb ub k"
proof -
  define delta where "delta = (ub - lb) / levels k"
  have d: "0 < delta" unfolding delta_def by (rule levels_delta_nonzero [OF k b])
  have n: "levels k = of_int (2 ^ nat k - 1)" by (rule levels_of_int [OF k])
  have n0: "(0::int) \<le> 2 ^ nat k - 1" by simp
  have U: "ub = lb + of_int (2 ^ nat k - 1) * delta"
    unfolding delta_def n [symmetric] using levels_ge_1 [OF k] by simp
  define q where "q = (\<lambda>v. torch_round ((min (max v lb) ub - lb) / delta) * delta + lb)"
  have qq: "q (q w) = q w" for w
  proof -
    from index_range [OF d U n0, of w] obtain j where
      j: "0 \<le> j" "j \<le> 2 ^ nat k - 1" "torch_round ((min (max w lb) ub - lb) / delta) = of_int j"
      by blast
    have qw: "q w = lb + of_int j * delta" unfolding q_def j(3) by simp
    show ?thesis
      unfolding qw unfolding q_def index_fixed [OF d U j(1,2)] by simp
  qed
  have "quant_no_align_zero x lb ub k = map q x"
    unfolding quant_no_align_zero_map q_def delta_def by (rule refl)
  moreover have "quant_no_align_zero (map q x) lb ub k = map q (map q x)"
    unfolding quant_no_align_zero_map q_def delta_def by (rule refl)
  ultimately show ?thesis by (simp add: qq)
qed

lemma zero_aligned_idempotent:
  assumes k: "1 \<le> k" and b: "lb < ub"
  shows "quant_align_zero (quant_align_zero x lb ub k) lb ub k = quant_align_zero x lb ub k"
proof -
  obtain N delta z lb' ub' where g: "align_zero_grid lb ub k = (N, delta, z, lb', ub')"
    by (metis prod_cases5)
  note gb = align_zero_grid_bounds [OF k b g]
  have d: "0 < delta" by (rule gb(2))
  have U: "ub' = lb' + of_int (2 ^ nat k - 1) * delta" by (rule gb(4))
  have n0: "(0::int) \<le> 2 ^ nat k - 1" by simp
  define q where "q = (\<lambda>v. lb' + torch_round ((min (max v lb') ub' - lb') / delta) * delta)"
  have qq: "q (q w) = q w" for w
  proof -
    from index_range [OF d U n0, of w] obtain j where
      j: "0 \<le> j" "j \<le> 2 ^ nat k - 1" "torch_round ((min (max w lb') ub' - lb') / delta) = of_int j"
      by blast
    have qw: "q w = lb' + of_int j * delta" unfolding q_def j(3) by simp
    show ?thesis
      unfolding qw unfolding q_def index_fixed [OF d U j(1,2)] by simp
  qed
  have "quant_align_zero y lb ub k = map q y" for y
    unfolding quant_align_zero_map [OF g] q_def by (rule refl)
  then show ?thesis by (simp add: qq)
qed

lemma fake_linear_quant_idempotent:
  assumes "1 \<le> k" and "lb < ub"
  shows "fake_linear_quant (fake_linear_quant x lb ub k az) lb ub k az = fake_linear_quant x lb ub k az"
  unfolding fake_linear_quant_def
  using free_idempotent [OF assms] zero_aligned_idempotent [OF assms] by simp

section \<open>The entry point\<close>

lemma bound_elems_at:
  assumes "broadcastable lb x" and "broadcastable ub x" and "c < length x"
  shows "(bound_at lb c, bound_at ub c) \<in> set (bound_elems lb ub)"
proof (cases lb)
  case (Scalar l)
  show ?thesis
  proof (cases ub)
    case (Scalar u)
    with \<open>lb = Scalar l\<close> show ?thesis by simp
  next
    case (PerChannel us)
    with \<open>lb = Scalar l\<close> assms show ?thesis by simp
  qed
next
  case (PerChannel ls)
  show ?thesis
  proof (cases ub)
    case (Scalar u)
    with \<open>lb = PerChannel ls\<close> assms show ?thesis by simp
  next
    case (PerChannel us)
    with \<open>lb = PerChannel ls\<close> assms have "c < length (zip ls us)" by simp
    then have "zip ls us ! c \<in> set (zip ls us)" by (rule nth_mem)
    with \<open>lb = PerChannel ls\<close> PerChannel assms show ?thesis by simp
  qed
qed

lemma fake_quantize_Inr:
  assumes "fake_quantize x lb ub k az = Inr y"
  shows "1 \<le> k" and "broadcastable lb x" and "broadcastable ub x"
    and "\<not> list_ex (\<lambda>(l, u). u \<le> l) (bound_elems lb ub)"
    and "y = map (\<lambda>c. fake_linear_quant (x ! c) (bound_at lb c) (bound_at ub c) k az)
               [0..<length x]"
  using assms by (auto simp: fake_quantize_def split: if_splits)

lemma fake_quantize_valid:
  assumes "1 \<le> k" and "broadcastable lb x" and "broadcastable ub x"
    and "\<not> list_ex (\<lambda>(l, u). u \<le> l) (bound_elems lb ub)"
  shows "fake_quantize x lb ub k az =
     Inr (map (\<lambda>c. fake_linear_quant (x ! c) (bound_at lb c) (bound_at ub c) k az)
            [0..<length x])"
  using assms by (simp add: fake_quantize_def)

lemma broadcastable_length:
  "length y = length x \<Longrightarrow> broadcastable b y = broadcastable b x"
  by (cases b) simp_all

lemma fake_quantize_twice:
  assumes "fake_quantize x lb ub k az = Inr y"
  shows "fake_quantize y lb ub k az = Inr y"
proof -
  note q = fake_quantize_Inr [OF assms]
  have len: "length y = length x" unfolding q(5) by simp
  have bl: "broadcastable lb y" and bu: "broadcastable ub y"
    using q(2,3) broadcastable_length [OF len] by simp_all
  have slice: "fake_linear_quant (y ! c) (bound_at lb c) (bound_at ub c) k az = y ! c"
    if c: "c < length x" for c
  proof -
    have "(bound_at lb c, bound_at ub c) \<in> set (bound_elems lb ub)"
      by (rule bound_elems_at [OF q(2) q(3) c])
    with q(4) have b: "bound_at lb c < bound_at ub c"
      by (auto simp: list_ex_iff)
    have yc: "y ! c = fake_linear_quant (x ! c) (bound_at lb c) (bound_at ub c) k az"
      unfolding q(5) using c by simp
    show ?thesis
      unfolding yc by (rule fake_linear_quant_idempotent [OF q(1) b])
  qed
  have "map (\<lambda>c. fake_linear_quant (y ! c) (bound_at lb c) (bound_at ub c) k az) [0..<length y]
      = map (\<lambda>c. y ! c) [0..<length y]"
    using slice len by (intro map_cong) simp_all
  also have "\<dots> = y" by (rule map_nth)
  finally show ?thesis
    unfolding fake_quantize_valid [OF q(1) bl bu q(4)] by simp
qed

section \<open>Per-channel bounds\<close>

lemma length_cmap [simp]: "length (cmap f a) = length a"
  by (simp add: cmap_def)

lemma length_cmap2 [simp]: "length (cmap2 f a b) = min (length a) (length b)"
  by (simp add: cmap2_def)

lemma nth_cmap [simp]: "c < length a \<Longrightarrow> cmap f a ! c = map f (a ! c)"
  by (simp add: cmap_def)

lemma nth_cmap2 [simp]:
  "c < length a \<Longrightarrow> c < length b \<Longrightarrow> cmap2 f a b ! c = map2 f (a ! c) (b ! c)"
  by (simp add: cmap2_def)

lemma length_make_broadcast [simp]:
  "broadcastable t x \<Longrightarrow> length (make_broadcast t x) = length x"
  by (cases t) (simp_all add: make_broadcast_def)

lemma nth_make_broadcast [simp]:
  "broadcastable t x \<Longrightarrow> c < length x \<Longrightarrow>
     make_broadcast t x ! c = map (\<lambda>_. bound_at t c) (x ! c)"
  by (cases t) (simp_all add: make_broadcast_def)

lemma map2_maps_same:
  "map2 f (map g s) (map h s) = map (\<lambda>v. f (g v) (h v)) s"
  by (induction s) simp_all

lemma map2_left_same: "map2 f s (map h s) = map (\<lambda>v. f v (h v)) s"
  by (induction s) simp_all

lemma map2_right_same: "map2 f (map g s) s = map (\<lambda>v. f (g v) v) s"
  by (induction s) simp_all

text \<open>One slice \<open>s\<close> with its bounds \<open>l\<close> and \<open>u\<close> broadcast to \<open>L\<close> and \<open>U\<close>.\<close>

lemma slice_quant:
  "map2 (+) (map2 (*)
       (map round_ste
          (map2 (/) (map2 (-) (map2 min (map2 max s (map (\<lambda>_. l) s)) (map (\<lambda>_. u) s))
                               (map (\<lambda>_. l) s))
                    (map (\<lambda>v. v / n) (map2 (-) (map (\<lambda>_. u) s) (map (\<lambda>_. l) s)))))
       (map (\<lambda>v. v / n) (map2 (-) (map (\<lambda>_. u) s) (map (\<lambda>_. l) s))))
     (map (\<lambda>_. l) s)
   = map (\<lambda>v. torch_round ((min (max v l) u - l) / ((u - l) / n)) * ((u - l) / n) + l) s"
  by (induction s) (simp_all add: round_ste_def)

lemma slice_dx:
  "map2 (*) (d::tensor) (map2 (\<lambda>p q. p * q) (map2 (\<lambda>l v. of_bool (l \<le> v)) (map (\<lambda>_. l) s) s)
                                      (map2 (\<lambda>v u. of_bool (v \<le> u)) s (map (\<lambda>_. u) s)))
   = map2 (\<lambda>g v. g * of_bool (x_mask l u v)) d (s::tensor)"
proof (induction s arbitrary: d)
  case Nil
  then show ?case by simp
next
  case (Cons v s)
  then show ?case by (cases d) (simp_all add: x_mask_def)
qed

lemma slice_d_ub:
  "sum_list (map2 (+)
      (map2 (*) (d::tensor) (map2 (\<lambda>v u. of_bool (v > u)) s (map (\<lambda>_. u) s)))
      (map (\<lambda>v. v / n) (map2 (*) d
         (map2 (-)
            (map round_ste
               (map2 (/) (map2 (-) (map2 min (map2 max s (map (\<lambda>_. l) s)) (map (\<lambda>_. u) s))
                                    (map (\<lambda>_. l) s))
                         (map (\<lambda>v. v / n) (map2 (-) (map (\<lambda>_. u) s) (map (\<lambda>_. l) s)))))
            (map2 (/) (map2 (-) (map2 min (map2 max s (map (\<lambda>_. l) s)) (map (\<lambda>_. u) s))
                                 (map (\<lambda>_. l) s))
                      (map (\<lambda>v. v / n) (map2 (-) (map (\<lambda>_. u) s) (map (\<lambda>_. l) s))))))))
   = sum_list (map2 (\<lambda>g v. g * of_bool (mask_up u v)) d s)
       + sum_list (map2 (\<lambda>g v. g * (round_ste ((min (max v l) u - l) / ((u - l) / n))
                                      - (min (max v l) u - l) / ((u - l) / n))) d s) / n"
proof (induction s arbitrary: d)
  case Nil
  then show ?case by simp
next
  case (Cons v s)
  show ?case
  proof (cases d)
    case Nil
    then show ?thesis by simp
  next
    case (Cons g d')
    show ?thesis
      unfolding Cons using Cons.IH [of d']
      by (simp add: mask_up_def add_divide_distrib)
  qed
qed

lemma slice_d_lb:
  "sum_list (map2 (-)
      (map2 (*) (d::tensor) (map2 (\<lambda>v l. of_bool (v < l)) s (map (\<lambda>_. l) s)))
      (map (\<lambda>v. v / n) (map2 (*) d
         (map2 (-)
            (map round_ste
               (map2 (/) (map2 (-) (map2 min (map2 max s (map (\<lambda>_. l) s)) (map (\<lambda>_. u) s))
                                    (map (\<lambda>_. l) s))
                         (map (\<lambda>v. v / n) (map2 (-) (map (\<lambda>_. u) s) (map (\<lambda>_. l) s)))))
            (map2 (/) (map2 (-) (map2 min (map2 max s (map (\<lambda>_. l) s)) (map (\<lambda>_. u) s))
                                 (map (\<lambda>_. l) s))
                      (map (\<lambda>v. v / n) (map2 (-) (map (\<lambda>_. u) s) (map (\<lambda>_. l) s))))))))
   = sum_list (map2 (\<lambda>g v. g * of_bool (mask_down l v)) d s)
       - sum_list (map2 (\<lambda>g v. g * (round_ste ((min (max v l) u - l) / ((u - l) / n))
                                      - (min (max v l) u - l) / ((u - l) / n))) d s) / n"
proof (induction s arbitrary: d)
  case Nil
  then show ?case by simp
next
  case (Cons v s)
  show ?case
  proof (cases d)
    case Nil
    then show ?thesis by simp
  next
    case (Cons g d')
    show ?thesis
      unfolding Cons using Cons.IH [of d']
      by (simp add: mask_down_def add_divide_distrib)
  qed
qed

lemmas channel_nth_simps = fst_conv snd_conv nth_map length_map nth_cmap nth_cmap2 length_cmap
  length_cmap2 length_make_broadcast nth_make_broadcast min_less_iff_conj min.idem simp_thms

lemma channel_num_grad_nth:
  assumes bl: "broadcastable lbp x" and bu: "broadcastable ubp x"
    and len: "length d_qx = length x" and c: "c < length x"
  shows "fst (channel_num_grad d_qx x lbp ubp k) ! c
           = fst (num_grad_no_align_zero (d_qx ! c) (x ! c) (bound_at lbp c) (bound_at ubp c) k)"
    and "fst (snd (channel_num_grad d_qx x lbp ubp k)) ! c
           = fst (snd (num_grad_no_align_zero (d_qx ! c) (x ! c) (bound_at lbp c) (bound_at ubp c) k))"
    and "snd (snd (channel_num_grad d_qx x lbp ubp k)) ! c
           = snd (snd (num_grad_no_align_zero (d_qx ! c) (x ! c) (bound_at lbp c) (bound_at ubp c) k))"
proof -
  show "fst (channel_num_grad d_qx x lbp ubp k) ! c
           = fst (num_grad_no_align_zero (d_qx ! c) (x ! c) (bound_at lbp c) (bound_at ubp c) k)"
    unfolding channel_num_grad_def num_grad_no_align_zero_sums Let_def
    using bl bu len c by (simp only: channel_nth_simps slice_dx)
  show "fst (snd (channel_num_grad d_qx x lbp ubp k)) ! c
           = fst (snd (num_grad_no_align_zero (d_qx ! c) (x ! c) (bound_at lbp c) (bound_at ubp c) k))"
    unfolding channel_num_grad_def num_grad_no_align_zero_sums Let_def
    using bl bu len c by (simp only: channel_nth_simps slice_d_lb)
  show "snd (snd (channel_num_grad d_qx x lbp ubp k)) ! c
           = snd (snd (num_grad_no_align_zero (d_qx ! c) (x ! c) (bound_at lbp c) (bound_at ubp c) k))"
    unfolding channel_num_grad_def num_grad_no_align_zero_sums Let_def
    using bl bu len c by (simp only: channel_nth_simps slice_d_ub)
qed

lemma channel_num_grad_length:
  assumes bl: "broadcastable lbp x" and bu: "broadcastable ubp x"
    and len: "length d_qx = length x"
  shows "length (fst (channel_num_grad d_qx x lbp ubp k)) = length x"
    and "length (fst (snd (channel_num_grad d_qx x lbp ubp k))) = length x"
    and "length (snd (snd (channel_num_grad d_qx x lbp ubp k))) = length x"
  unfolding channel_num_grad_def Let_def using assms by simp_all

lemma channel_quant_nth:
  assumes bl: "broadcastable lbp x" and bu: "broadcastable ubp x" and c: "c < length x"
  shows "channel_quant x lbp ubp k ! c
           = quant_no_align_zero (x ! c) (bound_at lbp c) (bound_at ubp c) k"
  unfolding channel_quant_def quant_no_align_zero_map Let_def
  using bl bu c by (simp only: channel_nth_simps slice_quant)

lemma channel_quant_length:
  assumes bl: "broadcastable lbp x" and bu: "broadcastable ubp x"
  shows "length (channel_quant x lbp ubp k) = length x"
  unfolding channel_quant_def Let_def using assms by simp

section \<open>Full reduction for a scalar bound\<close>

lemma backward_law_append:
  assumes "length dy1 = length x1"
  shows "backward_law az (dy1 @ dy2) (x1 @ x2) lb ub k =
     (fst (backward_law az dy1 x1 lb ub k) @ fst (backward_law az dy2 x2 lb ub k),
      fst (snd (backward_law az dy1 x1 lb ub k)) + fst (snd (backward_law az dy2 x2 lb ub k)),
      snd (snd (backward_law az dy1 x1 lb ub k)) + snd (snd (backward_law az dy2 x2 lb ub k)))"
  unfolding backward_law_def
  using num_grad_align_zero_append [OF assms] num_grad_no_align_zero_append [OF assms]
  by simp

lemma backward_law_Nil: "backward_law az [] [] lb ub k = ([], 0, 0)"
  unfolding backward_law_def num_grad_align_zero_sums num_grad_no_align_zero_sums Let_def
  by simp

lemma backward_law_concat:
  assumes "list_all2 (\<lambda>d s. length d = length s) dy x"
  shows "backward_law az (concat dy) (concat x) lb ub k =
     (concat (map2 (\<lambda>d s. fst (backward_law az d s lb ub k)) dy x),
      sum_list (map2 (\<lambda>d s. fst (snd (backward_law az d s lb ub k))) dy x),
      sum_list (map2 (\<lambda>d s. snd (snd (backward_law az d s lb ub k))) dy x))"
  using assms
proof (induction dy x rule: list_all2_induct)
  case Nil
  then show ?case by (simp add: backward_law_Nil)
next
  case (Cons d dy s x)
  show ?case
    using backward_law_append [OF Cons.hyps(1), of az "concat dy" "concat x" lb ub k] Cons.IH
    by simp
qed

lemma map_upt_zip:
  "length dy = length x \<Longrightarrow> map (\<lambda>c. f (dy ! c) (x ! c)) [0..<length x] = map2 f dy x"
  by (rule nth_equalityI) simp_all

lemma fake_quantize_backward_scalar:
  assumes "list_all2 (\<lambda>d s. length d = length s) dy x"
  shows "fake_quantize_backward dy x (Scalar l) (Scalar u) k az =
     (map2 (\<lambda>d s. fst (backward_law az d s l u k)) dy x,
      Scalar (fst (snd (backward_law az (concat dy) (concat x) l u k))),
      Scalar (snd (snd (backward_law az (concat dy) (concat x) l u k))))"
proof -
  have len: "length dy = length x" using assms by (rule list_all2_lengthD)
  have g: "map (\<lambda>c. backward_law az (dy ! c) (x ! c) l u k) [0..<length x]
      = map2 (\<lambda>d s. backward_law az d s l u k) dy x"
    by (rule map_upt_zip [OF len])
  show ?thesis
    unfolding fake_quantize_backward_def Let_def backward_law_concat [OF assms]
    by (simp add: g comp_def case_prod_unfold)
qed

lemma fake_quantize_backward_per_channel:
  "fake_quantize_backward dy x (PerChannel lbs) (PerChannel ubs) k az =
     (map (\<lambda>c. fst (backward_law az (dy ! c) (x ! c) (lbs ! c) (ubs ! c) k)) [0..<length x],
      PerChannel (map (\<lambda>c. fst (snd (backward_law az (dy ! c) (x ! c) (lbs ! c) (ubs ! c) k)))
                    [0..<length x]),
      PerChannel (map (\<lambda>c. snd (snd (backward_law az (dy ! c) (x ! c) (lbs ! c) (ubs ! c) k)))
                    [0..<length x]))"
  unfolding fake_quantize_backward_def Let_def by (simp add: comp_def)

lemma channel_num_grad_eq:
  assumes "length lbs = length x" and "length ubs = length x" and "length dy = length x"
  shows "channel_num_grad dy x (PerChannel lbs) (PerChannel ubs) k =
     (map (\<lambda>c. fst (num_grad_no_align_zero (dy ! c) (x ! c) (lbs ! c) (ubs ! c) k)) [0..<length x],
      map (\<lambda>c. fst (snd (num_grad_no_align_zero (dy ! c) (x ! c) (lbs ! c) (ubs ! c) k)))
          [0..<length x],
      map (\<lambda>c. snd (snd (num_grad_no_align_zero (dy ! c) (x ! c) (lbs ! c) (ubs ! c) k)))
          [0..<length x])"
proof -
  have bl: "broadcastable (PerChannel lbs) x" and bu: "broadcastable (PerChannel ubs) x"
    using assms by simp_all
  note n = channel_num_grad_nth [OF bl bu assms(3), of _ k]
  note l = channel_num_grad_length [OF bl bu assms(3), of k]
  have a: "fst (channel_num_grad dy x (PerChannel lbs) (PerChannel ubs) k)
      = map (\<lambda>c. fst (num_grad_no_align_zero (dy ! c) (x ! c) (lbs ! c) (ubs ! c) k)) [0..<length x]"
    by (rule nth_equalityI) (simp_all add: l n)
  have b: "fst (snd (channel_num_grad dy x (PerChannel lbs) (PerChannel ubs) k))
      = map (\<lambda>c. fst (snd (num_grad_no_align_zero (dy ! c) (x ! c) (lbs ! c) (ubs ! c) k)))
          [0..<length x]"
    by (rule nth_equalityI) (simp_all add: l n)
  have c: "snd (snd (channel_num_grad dy x (PerChannel lbs) (PerChannel ubs) k))
      = map (\<lambda>c. snd (snd (num_grad_no_align_zero (dy ! c) (x ! c) (lbs ! c) (ubs ! c) k)))
          [0..<length x]"
    by (rule nth_equalityI) (simp_all add: l n)
  show ?thesis using a b c by (metis prod.collapse)
qed

lemma channel_quant_eq:
  assumes "length lbs = length x" and "length ubs = length x"
  shows "channel_quant x (PerChannel lbs) (PerChannel ubs) k =
     map (\<lambda>c. quant_no_align_zero (x ! c) (lbs ! c) (ubs ! c) k) [0..<length x]"
proof -
  have bl: "broadcastable (PerChannel lbs) x" and bu: "broadcastable (PerChannel ubs) x"
    using assms by simp_all
  show ?thesis
    by (rule nth_equalityI)
      (simp_all add: channel_quant_length [OF bl bu] channel_quant_nth [OF bl bu])
qed

lemma singleton_nth: "length xs = Suc 0 \<Longrightarrow> xs = [xs ! 0]"
  by (cases xs) simp_all

lemma channel_num_grad_single:
  "channel_num_grad [d] [s] (Scalar l) (Scalar u) k =
     ([fst (num_grad_no_align_zero d s l u k)],
      [fst (snd (num_grad_no_align_zero d s l u k))],
      [snd (snd (num_grad_no_align_zero d s l u k))])"
proof -
  have bl: "broadcastable (Scalar l) [s]" and bu: "broadcastable (Scalar u) [s]" by simp_all
  have len: "length [d] = length [s]" by simp
  have c: "0 < length [s]" by simp
  note n = channel_num_grad_nth [OF bl bu len c, of k]
  note m = channel_num_grad_length [OF bl bu len, of k]
  have a: "fst (channel_num_grad [d] [s] (Scalar l) (Scalar u) k)
      = [fst (num_grad_no_align_zero d s l u k)]"
    using singleton_nth [of "fst (channel_num_grad [d] [s] (Scalar l) (Scalar u) k)"] m(1) n(1)
    by simp
  have b: "fst (snd (channel_num_grad [d] [s] (Scalar l) (Scalar u) k))
      = [fst (snd (num_grad_no_align_zero d s l u k))]"
    using singleton_nth [of "fst (snd (channel_num_grad [d] [s] (Scalar l) (Scalar u) k))"] m(2) n(2)
    by simp
  have c: "snd (snd (channel_num_grad [d] [s] (Scalar l) (Scalar u) k))
      = [snd (snd (num_grad_no_align_zero d s l u k))]"
    using singleton_nth [of "snd (snd (channel_num_grad [d] [s] (Scalar l) (Scalar u) k))"] m(3) n(3)
    by simp
  show ?thesis using a b c by (metis prod.collapse)
qed

section \<open>The fused kernel and the reference compositions\<close>











section \<open>The zero-aligned backward law\<close>

text \<open>
  C2. For the zero-aligned operator with scalar bounds, \<open>ub > lb\<close> and \<open>k \<ge> 1\<close>, the backward
  pass that the test writes out computes, with \<open>N = 2^k - 1\<close>, \<open>delta = (ub - lb)/N\<close>,
  \<open>z = round(|lb|/delta)\<close>, \<open>lb' = - z delta\<close>, \<open>xc = clamp(x, lb', ub')\<close>,
  \<open>i = round((xc - lb')/delta)\<close>, \<open>x_sub = xc - lb' - |lb|\<close> and \<open>d_i = (i - z) - x_sub/delta\<close>:
  \<open>d_ub = sum(dy d_i)/N\<close>, \<open>d_lb = - d_ub - sum(dy sign(lb))\<close> and \<open>dx = dy 1[lb' \<le> x \<le> ub']\<close>;
  the sign of zero is zero, so at \<open>lb = 0\<close> the gradients satisfy \<open>d_lb = - d_ub\<close>.
\<close>

theorem zero_aligned_backward_law:
  assumes "1 \<le> k" and "lb < ub" and "length dy = length x"
  shows "num_grad_align_zero dy x lb ub k =
    (let N = 2 ^ nat k - 1;
         delta = (ub - lb) / N;
         z = torch_round (\<bar>lb\<bar> / delta);
         lb' = - z * delta;
         ub' = (N - z) * delta;
         xc = (\<lambda>v. torch_clamp v lb' ub');
         i = (\<lambda>v. torch_round ((xc v - lb') / delta));
         x_sub = (\<lambda>v. xc v - lb' - \<bar>lb\<bar>);
         d_i = (\<lambda>v. (i v - z) - x_sub v / delta);
         d_ub = sum_list (map2 (\<lambda>g v. g * d_i v) dy x) / N;
         d_lb = - d_ub - sum_list (map (\<lambda>g. g * sgn lb) dy)
     in (map2 (\<lambda>g v. g * of_bool (lb' \<le> v \<and> v \<le> ub')) dy x, d_lb, d_ub))
   \<and> (lb = 0 \<longrightarrow> fst (snd (num_grad_align_zero dy x lb ub k))
                   = - snd (snd (num_grad_align_zero dy x lb ub k)))"
proof
  show law: "num_grad_align_zero dy x lb ub k =
    (let N = 2 ^ nat k - 1;
         delta = (ub - lb) / N;
         z = torch_round (\<bar>lb\<bar> / delta);
         lb' = - z * delta;
         ub' = (N - z) * delta;
         xc = (\<lambda>v. torch_clamp v lb' ub');
         i = (\<lambda>v. torch_round ((xc v - lb') / delta));
         x_sub = (\<lambda>v. xc v - lb' - \<bar>lb\<bar>);
         d_i = (\<lambda>v. (i v - z) - x_sub v / delta);
         d_ub = sum_list (map2 (\<lambda>g v. g * d_i v) dy x) / N;
         d_lb = - d_ub - sum_list (map (\<lambda>g. g * sgn lb) dy)
     in (map2 (\<lambda>g v. g * of_bool (lb' \<le> v \<and> v \<le> ub')) dy x, d_lb, d_ub))"
    by (rule num_grad_align_zero_eq [OF assms(1) assms(3)])
  show "lb = 0 \<longrightarrow> fst (snd (num_grad_align_zero dy x lb ub k))
                   = - snd (snd (num_grad_align_zero dy x lb ub k))"
    unfolding law by (simp add: Let_def)
qed

theorem zero_aligned_backward_law_witness:
  "num_grad_align_zero [1, 1] [1 / 4, 3] (- 1) 2 2 = ([1, 0], 25 / 12, - (1 / 12))
   \<and> fst (snd (num_grad_align_zero [1, 2] [1 / 4, 3] 0 2 2))
       = - snd (snd (num_grad_align_zero [1, 2] [1 / 4, 3] 0 2 2))"
proof -
  have k: "(1::int) \<le> 2" by simp
  have a: "(- 1::real) < 2" by simp
  have b: "(0::real) < 2" by simp
  have l: "length [1, 1::real] = length [1 / 4, 3::real]" by simp
  have l2: "length [1, 2::real] = length [1 / 4, 3::real]" by simp
  note t = zero_aligned_backward_law [OF k a l, THEN conjunct1]
  have one: "num_grad_align_zero [1, 1] [1 / 4, 3] (- 1) 2 2 = ([1, 0], 25 / 12, - (1 / 12))"
    unfolding t by code_simp
  have two: "fst (snd (num_grad_align_zero [1, 2] [1 / 4, 3] 0 2 2))
       = - snd (snd (num_grad_align_zero [1, 2] [1 / 4, 3] 0 2 2))"
    using zero_aligned_backward_law [OF k b l2, THEN conjunct2] by simp
  from one two show ?thesis by (rule conjI)
qed

section \<open>The free backward law\<close>

text \<open>
  C3. For the free operator with \<open>ub > lb\<close> and \<open>k \<ge> 1\<close>, the backward pass of the
  composition of lines 132 to 135 computes, with \<open>N = 2^k - 1\<close>, \<open>delta = (ub - lb)/N\<close>,
  \<open>xc = clamp(x, lb, ub)\<close>, \<open>t = (xc - lb)/delta\<close> and \<open>qi_diff = round(t) - t\<close>:
  \<open>d_ub = sum(dy 1[x > ub]) + sum(dy qi_diff)/N\<close>,
  \<open>d_lb = sum(dy 1[x < lb]) - sum(dy qi_diff)/N\<close> and \<open>dx = dy 1[lb \<le> x \<le> ub]\<close>;
  these are the values the test expects.
\<close>

theorem free_backward_law:
  assumes "1 \<le> k" and "lb < ub" and "length dy = length x"
  shows "backward_no_align_zero dy x lb ub k =
    (let N = 2 ^ nat k - 1;
         delta = (ub - lb) / N;
         xc = (\<lambda>v. min (max v lb) ub);
         t = (\<lambda>v. (xc v - lb) / delta);
         qi_diff = (\<lambda>v. torch_round (t v) - t v);
         d_ub = sum_list (map2 (\<lambda>g v. g * of_bool (v > ub)) dy x)
                  + sum_list (map2 (\<lambda>g v. g * qi_diff v) dy x) / N;
         d_lb = sum_list (map2 (\<lambda>g v. g * of_bool (v < lb)) dy x)
                  - sum_list (map2 (\<lambda>g v. g * qi_diff v) dy x) / N
     in (map2 (\<lambda>g v. g * of_bool (lb \<le> v \<and> v \<le> ub)) dy x, d_lb, d_ub))
   \<and> num_grad_no_align_zero dy x lb ub k = backward_no_align_zero dy x lb ub k"
proof -
  have d: "(ub - lb) / levels k \<noteq> 0"
    using levels_delta_nonzero [OF assms(1) assms(2)] by linarith
  have lev: "levels k = 2 ^ nat k - 1"
    by (rule levels_pos [OF assms(1)])
  have eq: "num_grad_no_align_zero dy x lb ub k = backward_no_align_zero dy x lb ub k"
    unfolding num_grad_no_align_zero_sums backward_no_align_zero_sums [OF d assms(3)]
    by (rule refl)
  have law: "backward_no_align_zero dy x lb ub k =
    (let N = 2 ^ nat k - 1;
         delta = (ub - lb) / N;
         xc = (\<lambda>v. min (max v lb) ub);
         t = (\<lambda>v. (xc v - lb) / delta);
         qi_diff = (\<lambda>v. torch_round (t v) - t v);
         d_ub = sum_list (map2 (\<lambda>g v. g * of_bool (v > ub)) dy x)
                  + sum_list (map2 (\<lambda>g v. g * qi_diff v) dy x) / N;
         d_lb = sum_list (map2 (\<lambda>g v. g * of_bool (v < lb)) dy x)
                  - sum_list (map2 (\<lambda>g v. g * qi_diff v) dy x) / N
     in (map2 (\<lambda>g v. g * of_bool (lb \<le> v \<and> v \<le> ub)) dy x, d_lb, d_ub))"
    unfolding backward_no_align_zero_sums [OF d assms(3)] lev Let_def
      x_mask_def mask_up_def mask_down_def round_ste_def
    by (rule refl)
  from law eq show ?thesis by (rule conjI)
qed

theorem free_backward_law_witness:
  "backward_no_align_zero [1, 1, 5, 7] [1 / 4, 3, - 4, 17 / 10] (- 1) 2 3
     = ([1, 0, 0, 7], 2221 / 420, 299 / 420)
   \<and> num_grad_no_align_zero [1, 1, 5, 7] [1 / 4, 3, - 4, 17 / 10] (- 1) 2 3
     = ([1, 0, 0, 7], 2221 / 420, 299 / 420)"
proof -
  have k: "(1::int) \<le> 3" by simp
  have a: "(- 1::real) < 2" by simp
  have l: "length [1, 1, 5, 7::real] = length [1 / 4, 3, - 4, 17 / 10::real]" by simp
  note t = free_backward_law [OF k a l]
  have one: "backward_no_align_zero [1, 1, 5, 7] [1 / 4, 3, - 4, 17 / 10] (- 1) 2 3
     = ([1, 0, 0, 7], 2221 / 420, 299 / 420)"
    unfolding t [THEN conjunct1] by code_simp
  have two: "num_grad_no_align_zero [1, 1, 5, 7] [1 / 4, 3, - 4, 17 / 10] (- 1) 2 3
     = ([1, 0, 0, 7], 2221 / 420, 299 / 420)"
    unfolding t [THEN conjunct2] one by (rule refl)
  from one two show ?thesis by (rule conjI)
qed

section \<open>The clamp primitive\<close>

text \<open>
  C5. The clamp primitive: forward \<open>y = min(max(x, lb), ub)\<close> elementwise, the bounds
  broadcast against \<open>x\<close>; backward, \<open>dx = dy\<close> where \<open>lb \<le> x \<le> ub\<close> and \<open>0\<close> elsewhere (the
  masked product \<^verbatim>\<open>d_x\<close> of the tests), \<open>d_ub = sum(dy 1[x > ub])\<close> and
  \<open>d_lb = sum(dy 1[x < lb])\<close>, each sum over all the elements the bound was broadcast to:
  the values \<^verbatim>\<open>test_clamp_num_grad\<close> expects.
\<close>

theorem clamp_contract:
  "clamp x lb ub = map (\<lambda>v. min (max v lb) ub) x
   \<and> clamp_backward dy x lb ub = (d_x dy (map (x_mask lb ub) x), clamp_num_grad dy x lb ub)
   \<and> clamp_num_grad dy x lb ub =
       (sum_list (map2 (\<lambda>g v. g * of_bool (v < lb)) dy x),
        sum_list (map2 (\<lambda>g v. g * of_bool (v > ub)) dy x))"
  unfolding clamp_backward_eq clamp_num_grad_def d_x_def Let_def tmul_to_dtype
  by (simp add: clamp_def mask_up_def mask_down_def)

section \<open>The gradient of a saturated element\<close>

text \<open>
  C7, as the code has it. Take one element \<open>v\<close> of \<open>x\<close>, with upstream gradient \<open>g\<close>, out of
  the tensor. In the free operator, an element strictly above \<open>ub\<close> has \<open>dx = 0\<close> and adds
  exactly \<open>g\<close> to \<open>d_ub\<close> and nothing to \<open>d_lb\<close>; an element strictly below \<open>lb\<close> has
  \<open>dx = 0\<close> and adds exactly \<open>g\<close> to \<open>d_lb\<close> and nothing to \<open>d_ub\<close>. In the zero-aligned
  operator, an element strictly outside the adjusted bounds \<open>[lb', ub']\<close> has \<open>dx = 0\<close>.
\<close>

theorem saturation_gradient:
  assumes "1 \<le> k" and "lb < ub" and "length dy1 = length x1"
  shows "(ub < v \<longrightarrow>
            num_grad_no_align_zero (dy1 @ g # dy2) (x1 @ v # x2) lb ub k =
              (let a = num_grad_no_align_zero dy1 x1 lb ub k;
                   b = num_grad_no_align_zero dy2 x2 lb ub k
               in (fst a @ 0 # fst b, fst (snd a) + fst (snd b), snd (snd a) + g + snd (snd b))))
       \<and> (v < lb \<longrightarrow>
            num_grad_no_align_zero (dy1 @ g # dy2) (x1 @ v # x2) lb ub k =
              (let a = num_grad_no_align_zero dy1 x1 lb ub k;
                   b = num_grad_no_align_zero dy2 x2 lb ub k
               in (fst a @ 0 # fst b, fst (snd a) + g + fst (snd b), snd (snd a) + snd (snd b))))
       \<and> (let N = 2 ^ nat k - 1;
                delta = (ub - lb) / N;
                z = torch_round (\<bar>lb\<bar> / delta);
                lb' = - z * delta;
                ub' = (N - z) * delta
            in ub' < v \<or> v < lb' \<longrightarrow>
               fst (num_grad_align_zero (dy1 @ g # dy2) (x1 @ v # x2) lb ub k) =
                 fst (num_grad_align_zero dy1 x1 lb ub k) @ 0
                   # fst (num_grad_align_zero dy2 x2 lb ub k))"
proof -
  have split_free: "num_grad_no_align_zero (dy1 @ g # dy2) (x1 @ v # x2) lb ub k =
      (fst (num_grad_no_align_zero dy1 x1 lb ub k) @ fst (num_grad_no_align_zero [g] [v] lb ub k)
         @ fst (num_grad_no_align_zero dy2 x2 lb ub k),
       fst (snd (num_grad_no_align_zero dy1 x1 lb ub k))
         + (fst (snd (num_grad_no_align_zero [g] [v] lb ub k))
         + fst (snd (num_grad_no_align_zero dy2 x2 lb ub k))),
       snd (snd (num_grad_no_align_zero dy1 x1 lb ub k))
         + (snd (snd (num_grad_no_align_zero [g] [v] lb ub k))
         + snd (snd (num_grad_no_align_zero dy2 x2 lb ub k))))"
    using num_grad_no_align_zero_append [OF assms(3), of "g # dy2" "v # x2" lb ub k]
      num_grad_no_align_zero_append [of "[g]" "[v]" dy2 x2 lb ub k]
    by simp
  have split_zero: "num_grad_align_zero (dy1 @ g # dy2) (x1 @ v # x2) lb ub k =
      (fst (num_grad_align_zero dy1 x1 lb ub k) @ fst (num_grad_align_zero [g] [v] lb ub k)
         @ fst (num_grad_align_zero dy2 x2 lb ub k),
       fst (snd (num_grad_align_zero dy1 x1 lb ub k))
         + (fst (snd (num_grad_align_zero [g] [v] lb ub k))
         + fst (snd (num_grad_align_zero dy2 x2 lb ub k))),
       snd (snd (num_grad_align_zero dy1 x1 lb ub k))
         + (snd (snd (num_grad_align_zero [g] [v] lb ub k))
         + snd (snd (num_grad_align_zero dy2 x2 lb ub k))))"
    using num_grad_align_zero_append [OF assms(3), of "g # dy2" "v # x2" lb ub k]
      num_grad_align_zero_append [of "[g]" "[v]" dy2 x2 lb ub k]
    by simp
  have above: "num_grad_no_align_zero (dy1 @ g # dy2) (x1 @ v # x2) lb ub k =
              (let a = num_grad_no_align_zero dy1 x1 lb ub k;
                   b = num_grad_no_align_zero dy2 x2 lb ub k
               in (fst a @ 0 # fst b, fst (snd a) + fst (snd b), snd (snd a) + g + snd (snd b)))"
    if "ub < v"
    unfolding split_free free_single_above [OF assms(1) assms(2) that] Let_def by simp
  have below: "num_grad_no_align_zero (dy1 @ g # dy2) (x1 @ v # x2) lb ub k =
              (let a = num_grad_no_align_zero dy1 x1 lb ub k;
                   b = num_grad_no_align_zero dy2 x2 lb ub k
               in (fst a @ 0 # fst b, fst (snd a) + g + fst (snd b), snd (snd a) + snd (snd b)))"
    if "v < lb"
    unfolding split_free free_single_below [OF assms(1) assms(2) that] Let_def by simp
  have lev: "levels k = 2 ^ nat k - 1" by (rule levels_pos [OF assms(1)])
  have zero: "fst (num_grad_align_zero (dy1 @ g # dy2) (x1 @ v # x2) lb ub k) =
                 fst (num_grad_align_zero dy1 x1 lb ub k) @ 0
                   # fst (num_grad_align_zero dy2 x2 lb ub k)"
    if "(2 ^ nat k - 1 - torch_round (\<bar>lb\<bar> / ((ub - lb) / (2 ^ nat k - 1))))
           * ((ub - lb) / (2 ^ nat k - 1)) < v
        \<or> v < - torch_round (\<bar>lb\<bar> / ((ub - lb) / (2 ^ nat k - 1))) * ((ub - lb) / (2 ^ nat k - 1))"
    unfolding split_zero
      align_zero_single_saturated [OF assms(1) assms(2), unfolded lev, OF that]
    by simp
  show ?thesis
    unfolding Let_def using above below zero unfolding Let_def by blast
qed

theorem saturation_gradient_witness:
  "num_grad_no_align_zero [1, 5, 2] [1 / 4, 3, 0] (- 1) 2 2 = ([1, 0, 2], 1 / 12, 59 / 12)
   \<and> num_grad_no_align_zero [1, 5, 2] [1 / 4, - 2, 0] (- 1) 2 2 = ([1, 0, 2], 61 / 12, - (1 / 12))
   \<and> fst (num_grad_align_zero [1, 5, 2] [1 / 4, 3, 0] (- 1) (7 / 4) 2) = [1, 0, 2]"
proof -
  have k: "(1::int) \<le> 2" by simp
  have b: "(- 1::real) < 2" by simp
  have b': "(- 1::real) < 7 / 4" by simp
  have l: "length [1::real] = length [1 / 4::real]" by simp
  note up = saturation_gradient [OF k b l, of 3 5 "[2]" "[0]", THEN conjunct1, THEN mp]
  note down = saturation_gradient [OF k b l, of "- 2" 5 "[2]" "[0]",
      THEN conjunct2, THEN conjunct1, THEN mp]
  note zero = saturation_gradient [OF k b' l, of 3 5 "[2]" "[0]",
      THEN conjunct2, THEN conjunct2, unfolded Let_def, THEN mp]
  have "num_grad_no_align_zero [1, 5, 2] [1 / 4, 3, 0] (- 1) 2 2
      = num_grad_no_align_zero ([1] @ 5 # [2]) ([1 / 4] @ 3 # [0]) (- 1) 2 2" by simp
  also have "\<dots> = (let a = num_grad_no_align_zero [1] [1 / 4] (- 1) 2 2;
                       b = num_grad_no_align_zero [2] [0] (- 1) 2 2
                   in (fst a @ 0 # fst b, fst (snd a) + fst (snd b), snd (snd a) + 5 + snd (snd b)))"
    by (rule up) simp
  also have "\<dots> = ([1, 0, 2], 1 / 12, 59 / 12)" by code_simp
  finally have one: "num_grad_no_align_zero [1, 5, 2] [1 / 4, 3, 0] (- 1) 2 2
      = ([1, 0, 2], 1 / 12, 59 / 12)" .
  have "num_grad_no_align_zero [1, 5, 2] [1 / 4, - 2, 0] (- 1) 2 2
      = num_grad_no_align_zero ([1] @ 5 # [2]) ([1 / 4] @ (- 2) # [0]) (- 1) 2 2" by simp
  also have "\<dots> = (let a = num_grad_no_align_zero [1] [1 / 4] (- 1) 2 2;
                       b = num_grad_no_align_zero [2] [0] (- 1) 2 2
                   in (fst a @ 0 # fst b, fst (snd a) + 5 + fst (snd b), snd (snd a) + snd (snd b)))"
    by (rule down) simp
  also have "\<dots> = ([1, 0, 2], 61 / 12, - (1 / 12))" by code_simp
  finally have two: "num_grad_no_align_zero [1, 5, 2] [1 / 4, - 2, 0] (- 1) 2 2
      = ([1, 0, 2], 61 / 12, - (1 / 12))" .
  have sat: "(2 ^ nat 2 - 1 - torch_round (\<bar>- 1\<bar> / ((7 / 4 - - 1) / (2 ^ nat 2 - 1))))
           * ((7 / 4 - - 1) / (2 ^ nat 2 - 1)) < (3::real)
        \<or> (3::real) < - torch_round (\<bar>- 1\<bar> / ((7 / 4 - - 1) / (2 ^ nat 2 - 1)))
              * ((7 / 4 - - 1) / (2 ^ nat 2 - 1))"
    by code_simp
  have "fst (num_grad_align_zero [1, 5, 2] [1 / 4, 3, 0] (- 1) (7 / 4) 2)
      = fst (num_grad_align_zero ([1] @ 5 # [2]) ([1 / 4] @ 3 # [0]) (- 1) (7 / 4) 2)" by simp
  also note zero [OF sat]
  also have "fst (num_grad_align_zero [1] [1 / 4] (- 1) (7 / 4) 2) @
     0 # fst (num_grad_align_zero [2] [0] (- 1) (7 / 4) 2) = [1, 0, 2::real]" by code_simp
  finally have three: "fst (num_grad_align_zero [1, 5, 2] [1 / 4, 3, 0] (- 1) (7 / 4) 2)
      = [1, 0, 2]" .
  from one two three show ?thesis by blast
qed

theorem saturation_gradient_counterexample:
  "(2::real) < 3 \<and> num_grad_align_zero [1] [3] (- 1) 2 2 = ([0], 1, 0)
   \<and> (1::real) < 6 / 5 \<and> fst (num_grad_align_zero [1] [6 / 5] (- (3 / 5)) 1 1) = [1]"
  by code_simp

section \<open>Grid membership\<close>

text \<open>
  C4, as the code has it. For \<open>k \<ge> 1\<close> and \<open>ub > lb\<close>, every element of the output of the
  operator equals \<open>lb + i delta\<close> (free) or \<open>lb' + i delta\<close> (zero-aligned) for an integer
  \<open>0 \<le> i \<le> N\<close>, with \<open>N = 2^k - 1\<close> and \<open>delta = (ub - lb)/N = (ub' - lb')/N\<close>, \<open>lb' = - z delta\<close>;
  the index the test computes for the zero-aligned operator is such an integer. The value
  \<open>0\<close> is one of the \<open>N + 1\<close> grid points of the zero-aligned operator when \<open>lb \<le> 0 \<le> ub\<close>;
  it need not be one when the range does not contain \<open>0\<close>.
\<close>

theorem grid_membership:
  assumes "1 \<le> k" and "lb < ub"
  shows "(\<forall>v \<in> set (quant_no_align_zero x lb ub k).
            \<exists>i::int. 0 \<le> i \<and> i \<le> 2 ^ nat k - 1
              \<and> v = lb + of_int i * ((ub - lb) / (2 ^ nat k - 1)))
       \<and> (case align_zero_grid lb ub k of (N, delta, z, lb', ub') \<Rightarrow>
             N = 2 ^ nat k - 1 \<and> delta = (ub' - lb') / N \<and> lb' = - z * delta
             \<and> (\<forall>i \<in> set (align_zero_index x lb ub k).
                   \<exists>j::int. 0 \<le> j \<and> j \<le> 2 ^ nat k - 1 \<and> i = of_int j)
             \<and> (\<forall>v \<in> set (quant_align_zero x lb ub k).
                   \<exists>i::int. 0 \<le> i \<and> i \<le> 2 ^ nat k - 1 \<and> v = lb' + of_int i * delta)
             \<and> (lb \<le> 0 \<and> 0 \<le> ub \<longrightarrow>
                   (\<exists>i::int. 0 \<le> i \<and> i \<le> 2 ^ nat k - 1 \<and> 0 = lb' + of_int i * delta)))
       \<and> (\<forall>v \<in> set (fake_linear_quant x lb ub k az).
            v \<in> set (if az then quant_align_zero x lb ub k else quant_no_align_zero x lb ub k))"
proof -
  obtain N delta z lb' ub' where g: "align_zero_grid lb ub k = (N, delta, z, lb', ub')"
    by (metis prod_cases5)
  note gb = align_zero_grid_bounds [OF assms g]
  have N: "N = 2 ^ nat k - 1" using gb(1) by simp
  have n1: "1 \<le> N" using gb(1) levels_of_int [OF assms(1)] levels_ge_1 [OF assms(1)] by simp
  have "(ub' - lb') / N = delta" unfolding gb(4) gb(1) [symmetric] using n1 by simp
  then have dl: "delta = (ub' - lb') / N" by simp
  have free: "\<forall>v \<in> set (quant_no_align_zero x lb ub k).
            \<exists>i::int. 0 \<le> i \<and> i \<le> 2 ^ nat k - 1
              \<and> v = lb + of_int i * ((ub - lb) / (2 ^ nat k - 1))"
    using free_on_grid [OF assms] by blast
  have idx: "\<forall>i \<in> set (align_zero_index x lb ub k).
                   \<exists>j::int. 0 \<le> j \<and> j \<le> 2 ^ nat k - 1 \<and> i = of_int j"
    using align_zero_index_range [OF assms] by blast
  have zero: "\<forall>v \<in> set (quant_align_zero x lb ub k).
                   \<exists>i::int. 0 \<le> i \<and> i \<le> 2 ^ nat k - 1 \<and> v = lb' + of_int i * delta"
    using zero_aligned_on_grid [OF assms g] by blast
  have origin: "lb \<le> 0 \<and> 0 \<le> ub \<longrightarrow>
                   (\<exists>i::int. 0 \<le> i \<and> i \<le> 2 ^ nat k - 1 \<and> 0 = lb' + of_int i * delta)"
    using zero_on_grid [OF assms _ _ g] by blast
  have op: "\<forall>v \<in> set (fake_linear_quant x lb ub k az).
            v \<in> set (if az then quant_align_zero x lb ub k else quant_no_align_zero x lb ub k)"
    by (simp add: fake_linear_quant_def)
  show ?thesis
    unfolding g using free N dl gb(5) idx zero origin op by simp
qed

theorem grid_membership_witness:
  "quant_no_align_zero [1 / 4, 3, - 5] (- 1) 2 2 = [0, 2, - 1]
   \<and> (\<exists>i::int. 0 \<le> i \<and> i \<le> 2 ^ nat 2 - 1
          \<and> (2::real) = - 1 + of_int i * ((2 - - 1) / (2 ^ nat 2 - 1)))
   \<and> align_zero_grid (- 1) (7 / 4) 2 = (3, 11 / 12, 1, - (11 / 12), 11 / 6)
   \<and> quant_align_zero [1 / 4, 3, - 5] (- 1) (7 / 4) 2 = [0, 11 / 6, - (11 / 12)]
   \<and> (\<exists>i::int. 0 \<le> i \<and> i \<le> 2 ^ nat 2 - 1 \<and> (11 / 6::real) = - (11 / 12) + of_int i * (11 / 12))
   \<and> (\<exists>i::int. 0 \<le> i \<and> i \<le> 2 ^ nat 2 - 1 \<and> (0::real) = - (11 / 12) + of_int i * (11 / 12))"
proof -
  have k: "(1::int) \<le> 2" by simp
  have b: "(- 1::real) < 2" by simp
  have b': "(- 1::real) < 7 / 4" by simp
  have out: "quant_no_align_zero [1 / 4, 3, - 5] (- 1) 2 2 = [0, 2, - 1]" by code_simp
  have g: "align_zero_grid (- 1) (7 / 4) 2 = (3, 11 / 12, 1, - (11 / 12), 11 / 6)" by code_simp
  have out': "quant_align_zero [1 / 4, 3, - 5] (- 1) (7 / 4) 2 = [0, 11 / 6, - (11 / 12)]"
    by code_simp
  note free = grid_membership [OF k b, of "[1 / 4, 3, - 5]", THEN conjunct1, unfolded out]
  have one: "\<exists>i::int. 0 \<le> i \<and> i \<le> 2 ^ nat 2 - 1
          \<and> (2::real) = - 1 + of_int i * ((2 - - 1) / (2 ^ nat 2 - 1))"
    by (rule bspec [OF free]) simp
  note zero = grid_membership [OF k b', of "[1 / 4, 3, - 5]",
      THEN conjunct2, THEN conjunct1, unfolded g out']
  have two: "\<exists>i::int. 0 \<le> i \<and> i \<le> 2 ^ nat 2 - 1 \<and> (11 / 6::real) = - (11 / 12) + of_int i * (11 / 12)"
    using zero by simp
  have three: "\<exists>i::int. 0 \<le> i \<and> i \<le> 2 ^ nat 2 - 1 \<and> (0::real) = - (11 / 12) + of_int i * (11 / 12)"
    using zero by simp
  from out one g out' two three show ?thesis by blast
qed

theorem grid_membership_counterexample:
  "(10::real) < 11 \<and> align_zero_grid 10 11 1 = (1, 1, 10, - 10, - 9)
   \<and> quant_align_zero [0, 21 / 2] 10 11 1 = [- 9, - 9]
   \<and> \<not> (\<exists>i::int. 0 \<le> i \<and> i \<le> 2 ^ nat 1 - 1 \<and> (0::real) = - 10 + of_int i * 1)"
proof -
  have a: "(10::real) < 11" by simp
  have g: "align_zero_grid 10 11 1 = (1, 1, 10, - 10, - 9)" by code_simp
  have o: "quant_align_zero [0, 21 / 2] 10 11 1 = [- 9, - 9]" by code_simp
  have n: "\<not> (\<exists>i::int. 0 \<le> i \<and> i \<le> 2 ^ nat 1 - 1 \<and> (0::real) = - 10 + of_int i * 1)"
  proof
    assume "\<exists>i::int. 0 \<le> i \<and> i \<le> 2 ^ nat 1 - 1 \<and> (0::real) = - 10 + of_int i * 1"
    then obtain i :: int where i: "i \<le> 1" "(0::real) = - 10 + of_int i * 1" by auto
    from i(2) have "(of_int i :: real) = of_int 10" by simp
    then have "i = 10" by (simp only: of_int_eq_iff)
    with i(1) show False by simp
  qed
  from a g o n show ?thesis by blast
qed

section \<open>Idempotence\<close>

text \<open>
  C8. Quantising an already quantised tensor again, with the same bounds, bit-width and
  mode, returns it unchanged: for the free composition of the test and for the
  zero-aligned forward pass whenever \<open>k \<ge> 1\<close> and \<open>ub > lb\<close>, and for the entry point
  on every input it accepts.
\<close>

theorem fake_quantize_idempotent:
  "(1 \<le> k \<and> l < u \<longrightarrow>
        quant_no_align_zero (quant_no_align_zero t l u k) l u k = quant_no_align_zero t l u k
      \<and> quant_align_zero (quant_align_zero t l u k) l u k = quant_align_zero t l u k
      \<and> fake_linear_quant (fake_linear_quant t l u k az) l u k az = fake_linear_quant t l u k az)
   \<and> (fake_quantize x lb ub k az = Inr y \<longrightarrow> fake_quantize y lb ub k az = Inr y)"
  using fake_quantize_twice [of x lb ub k az y] fake_linear_quant_idempotent [of k l u t az]
    free_idempotent [of k l u t] zero_aligned_idempotent [of k l u t]
  by blast

theorem fake_quantize_idempotent_witness:
  "quant_no_align_zero [1 / 4, 3, - 5] (- 1) 2 2 = [0, 2, - 1]
   \<and> quant_no_align_zero [0, 2, - 1] (- 1) 2 2 = [0, 2, - 1]
   \<and> quant_align_zero [1 / 4, 3, - 5] (- 1) (7 / 4) 2 = [0, 11 / 6, - (11 / 12)]
   \<and> quant_align_zero [0, 11 / 6, - (11 / 12)] (- 1) (7 / 4) 2 = [0, 11 / 6, - (11 / 12)]
   \<and> fake_quantize [[1 / 4, 3, - 5], [3 / 5, 2 / 5]] (Scalar (- 1)) (PerChannel [2, 7 / 4]) 2 True
     = Inr [[0, 2, - 1], [11 / 12, 0]]
   \<and> fake_quantize [[0, 2, - 1], [11 / 12, 0]] (Scalar (- 1)) (PerChannel [2, 7 / 4]) 2 True
     = Inr [[0, 2, - 1], [11 / 12, 0]]"
proof -
  have h: "(1::int) \<le> 2 \<and> (- 1::real) < 2" by simp
  have h': "(1::int) \<le> 2 \<and> (- 1::real) < 7 / 4" by simp
  have c: "quant_no_align_zero [1 / 4, 3, - 5] (- 1) 2 2 = [0, 2, - 1]" by code_simp
  have d: "quant_no_align_zero [0, 2, - 1] (- 1) 2 2 = [0, 2, - 1]"
    using fake_quantize_idempotent [THEN conjunct1, THEN mp, OF h, THEN conjunct1,
        of "[1 / 4, 3, - 5]"]
    unfolding c .
  have e: "quant_align_zero [1 / 4, 3, - 5] (- 1) (7 / 4) 2 = [0, 11 / 6, - (11 / 12)]"
    by code_simp
  have f: "quant_align_zero [0, 11 / 6, - (11 / 12)] (- 1) (7 / 4) 2 = [0, 11 / 6, - (11 / 12)]"
    using fake_quantize_idempotent [THEN conjunct1, THEN mp, OF h', THEN conjunct2, THEN conjunct1,
        of "[1 / 4, 3, - 5]"]
    unfolding e .
  have a: "fake_quantize [[1 / 4, 3, - 5], [3 / 5, 2 / 5]] (Scalar (- 1)) (PerChannel [2, 7 / 4]) 2 True
     = Inr [[0, 2, - 1], [11 / 12, 0]]" by code_simp
  have b: "fake_quantize [[0, 2, - 1], [11 / 12, 0]] (Scalar (- 1)) (PerChannel [2, 7 / 4]) 2 True
     = Inr [[0, 2, - 1], [11 / 12, 0]]"
    by (rule fake_quantize_idempotent [THEN conjunct2, THEN mp, OF a])
  from c d e f a b show ?thesis by blast
qed

section \<open>Invalid bounds\<close>

text \<open>
  C9. If \<open>ub \<le> lb\<close> holds for some element of the bound pair, the forward pass returns an
  error and no tensor: the InvalidBoundsError when the bit-width and the shapes are valid.
  When \<open>ub > lb\<close> holds for every element, the InvalidBoundsError is not returned, and a
  valid bit-width and valid shapes give the quantised tensor.
\<close>

theorem invalid_bounds_rejected:
  "(list_ex (\<lambda>(l, u). u \<le> l) (bound_elems lb ub) \<longrightarrow>
       (\<exists>e. fake_quantize x lb ub k az = Inl e)
       \<and> (1 \<le> k \<and> broadcastable lb x \<and> broadcastable ub x \<longrightarrow>
            fake_quantize x lb ub k az = Inl InvalidBoundsError))
   \<and> (list_all (\<lambda>(l, u). l < u) (bound_elems lb ub) \<longrightarrow>
       fake_quantize x lb ub k az \<noteq> Inl InvalidBoundsError
       \<and> (1 \<le> k \<and> broadcastable lb x \<and> broadcastable ub x \<longrightarrow>
            (\<exists>y. fake_quantize x lb ub k az = Inr y)))"
proof -
  have neg: "\<not> list_ex (\<lambda>(l, u). u \<le> l) (bound_elems lb ub)"
    if "list_all (\<lambda>(l, u). l < u) (bound_elems lb ub)"
    using that by (auto simp: list_ex_iff list_all_iff)
  show ?thesis
    using neg by (auto simp: fake_quantize_def)
qed

theorem invalid_bounds_rejected_witness:
  "fake_quantize [[1 / 4, 3], [0]] (Scalar (- 1)) (PerChannel [2, - 1]) 2 False
     = Inl InvalidBoundsError
   \<and> fake_quantize [[1 / 4, 3], [0]] (Scalar (- 1)) (PerChannel [2, 7 / 4]) 2 False
     \<noteq> Inl InvalidBoundsError
   \<and> (\<exists>y. fake_quantize [[1 / 4, 3], [0]] (Scalar (- 1)) (PerChannel [2, 7 / 4]) 2 False = Inr y)"
proof -
  have bad: "list_ex (\<lambda>(l, u). u \<le> l) (bound_elems (Scalar (- 1)) (PerChannel [2, - 1]))"
    by simp
  have good: "list_all (\<lambda>(l, u). l < u) (bound_elems (Scalar (- 1)) (PerChannel [2, 7 / 4]))"
    by simp
  have pre: "(1::int) \<le> 2 \<and> broadcastable (Scalar (- 1)) [[1 / 4, 3], [0]]
      \<and> broadcastable (PerChannel [2, - 1]) [[1 / 4, 3], [0]]"
    by simp
  have pre': "(1::int) \<le> 2 \<and> broadcastable (Scalar (- 1)) [[1 / 4, 3], [0]]
      \<and> broadcastable (PerChannel [2, 7 / 4]) [[1 / 4, 3], [0]]"
    by simp
  note r = invalid_bounds_rejected [of "Scalar (- 1)" "PerChannel [2, - 1]" "[[1 / 4, 3], [0]]" 2 False,
      THEN conjunct1, THEN mp, OF bad, THEN conjunct2, THEN mp, OF pre]
  note v = invalid_bounds_rejected [of "Scalar (- 1)" "PerChannel [2, 7 / 4]" "[[1 / 4, 3], [0]]" 2 False,
      THEN conjunct2, THEN mp, OF good]
  from r v [THEN conjunct1] v [THEN conjunct2, THEN mp, OF pre'] show ?thesis by blast
qed

section \<open>Bounds per channel\<close>

text \<open>
  C6. With bound vectors of one entry per leading-dimension slice of \<open>x\<close> (length \<open>C\<close>), the
  forward pass quantises slice \<open>c\<close> with entry \<open>c\<close> of the bounds, and the gradients \<open>d_lb\<close>
  and \<open>d_ub\<close> are vectors of length \<open>C\<close> whose entry \<open>c\<close> is the scalar law summed over slice
  \<open>c\<close>: so the per-channel test computes, and so does the backward entry point for both
  variants. A scalar bound is the case of one slice holding the whole tensor: its
  gradient is the scalar law on all elements.
\<close>

theorem per_channel_bounds:
  assumes "length lbs = length x" and "length ubs = length x" and "length dy = length x"
  shows "channel_quant x (PerChannel lbs) (PerChannel ubs) k =
           map (\<lambda>c. quant_no_align_zero (x ! c) (lbs ! c) (ubs ! c) k) [0..<length x]
       \<and> channel_num_grad dy x (PerChannel lbs) (PerChannel ubs) k =
           (map (\<lambda>c. fst (num_grad_no_align_zero (dy ! c) (x ! c) (lbs ! c) (ubs ! c) k))
              [0..<length x],
            map (\<lambda>c. fst (snd (num_grad_no_align_zero (dy ! c) (x ! c) (lbs ! c) (ubs ! c) k)))
              [0..<length x],
            map (\<lambda>c. snd (snd (num_grad_no_align_zero (dy ! c) (x ! c) (lbs ! c) (ubs ! c) k)))
              [0..<length x])
       \<and> fake_quantize_backward dy x (PerChannel lbs) (PerChannel ubs) k az =
           (map (\<lambda>c. fst (backward_law az (dy ! c) (x ! c) (lbs ! c) (ubs ! c) k)) [0..<length x],
            PerChannel (map (\<lambda>c. fst (snd (backward_law az (dy ! c) (x ! c) (lbs ! c) (ubs ! c) k)))
                          [0..<length x]),
            PerChannel (map (\<lambda>c. snd (snd (backward_law az (dy ! c) (x ! c) (lbs ! c) (ubs ! c) k)))
                          [0..<length x]))
       \<and> (list_all2 (\<lambda>d s. length d = length s) dy x \<longrightarrow>
            fake_quantize_backward dy x (Scalar l) (Scalar u) k az =
              (map2 (\<lambda>d s. fst (backward_law az d s l u k)) dy x,
               Scalar (fst (snd (backward_law az (concat dy) (concat x) l u k))),
               Scalar (snd (snd (backward_law az (concat dy) (concat x) l u k)))))
       \<and> channel_num_grad [d] [s] (Scalar l) (Scalar u) k =
           ([fst (num_grad_no_align_zero d s l u k)],
            [fst (snd (num_grad_no_align_zero d s l u k))],
            [snd (snd (num_grad_no_align_zero d s l u k))])"
  using channel_quant_eq [OF assms(1,2)] channel_num_grad_eq [OF assms]
    fake_quantize_backward_per_channel [of dy x lbs ubs k az]
    fake_quantize_backward_scalar [of dy x l u k az]
    channel_num_grad_single [of d s l u k]
  by blast

theorem per_channel_bounds_witness:
  "channel_quant [[1 / 4, 3, - 4, 17 / 10], [3, 3 / 10]] (PerChannel [- 1, 0]) (PerChannel [2, 1]) 3
     = [[2 / 7, 2, - 1, 11 / 7], [1, 2 / 7]]
   \<and> channel_num_grad [[1, 1, 5, 7], [1, 2]] [[1 / 4, 3, - 4, 17 / 10], [3, 3 / 10]]
        (PerChannel [- 1, 0]) (PerChannel [2, 1]) 3
     = ([[1, 0, 0, 7], [0, 2]], [2221 / 420, 1 / 35], [299 / 420, 34 / 35])
   \<and> fake_quantize_backward [[1, 1, 5, 7], [1, 2]] [[1 / 4, 3, - 4, 17 / 10], [3, 3 / 10]]
        (Scalar (- 1)) (Scalar 2) 3 True
     = ([[1, 0, 0, 7], [0, 2]], Scalar (1345 / 84), Scalar (83 / 84))"
proof -
  have l1: "length [- 1, 0::real] = length [[1 / 4, 3, - 4, 17 / 10], [3, 3 / 10::real]]" by simp
  have l2: "length [2, 1::real] = length [[1 / 4, 3, - 4, 17 / 10], [3, 3 / 10::real]]" by simp
  have l3: "length [[1, 1, 5, 7], [1, 2::real]]
      = length [[1 / 4, 3, - 4, 17 / 10], [3, 3 / 10::real]]" by simp
  have sh: "list_all2 (\<lambda>d s. length d = length s) [[1, 1, 5, 7], [1, 2::real]]
      [[1 / 4, 3, - 4, 17 / 10], [3, 3 / 10::real]]" by simp
  note t = per_channel_bounds [OF l1 l2 l3, of 3 True "- 1" 2]
  have one: "channel_quant [[1 / 4, 3, - 4, 17 / 10], [3, 3 / 10]] (PerChannel [- 1, 0])
        (PerChannel [2, 1]) 3 = [[2 / 7, 2, - 1, 11 / 7], [1, 2 / 7]]"
    unfolding t [THEN conjunct1] by code_simp
  have two: "channel_num_grad [[1, 1, 5, 7], [1, 2]] [[1 / 4, 3, - 4, 17 / 10], [3, 3 / 10]]
        (PerChannel [- 1, 0]) (PerChannel [2, 1]) 3
     = ([[1, 0, 0, 7], [0, 2]], [2221 / 420, 1 / 35], [299 / 420, 34 / 35])"
    unfolding t [THEN conjunct2, THEN conjunct1] by code_simp
  have three: "fake_quantize_backward [[1, 1, 5, 7], [1, 2]] [[1 / 4, 3, - 4, 17 / 10], [3, 3 / 10]]
        (Scalar (- 1)) (Scalar 2) 3 True
     = ([[1, 0, 0, 7], [0, 2]], Scalar (1345 / 84), Scalar (83 / 84))"
    unfolding t [THEN conjunct2, THEN conjunct2, THEN conjunct2, THEN conjunct1, THEN mp, OF sh]
    by code_simp
  from one two three show ?thesis by blast
qed

section \<open>Reference and fused agreement\<close>



section \<open>The partition of the gradient\<close>

text \<open>
  C10. For bounds with \<open>lb \<le> ub\<close> exactly one of the three masks is 1 at every element, so
  the upstream gradient \<open>dy\<close> of the element goes to exactly one of \<open>dx\<close>, the saturation
  term of \<open>d_ub\<close> and the saturation term of \<open>d_lb\<close>; an element equal to \<open>lb\<close> or to \<open>ub\<close>
  passes its gradient to \<open>x\<close> and adds nothing to either saturation sum.
\<close>

theorem masks_partition:
  assumes "lb \<le> ub"
  shows "of_bool (x_mask lb ub v) + of_bool (mask_up ub v) + of_bool (mask_down lb v) = (1::nat)
       \<and> dy * of_bool (x_mask lb ub v) + dy * of_bool (mask_up ub v)
           + dy * of_bool (mask_down lb v) = (dy::real)
       \<and> (v = lb \<or> v = ub \<longrightarrow>
           dy * of_bool (x_mask lb ub v) = dy \<and> dy * of_bool (mask_up ub v) = 0
             \<and> dy * of_bool (mask_down lb v) = 0)"
proof -
  have one: "of_bool (x_mask lb ub v) + of_bool (mask_up ub v) + of_bool (mask_down lb v) = (1::nat)"
    using mask_cases [OF assms, of v] by auto
  have route: "dy * of_bool (x_mask lb ub v) + dy * of_bool (mask_up ub v)
           + dy * of_bool (mask_down lb v) = dy"
    using mask_cases [OF assms, of v] by auto
  have edge: "dy * of_bool (x_mask lb ub v) = dy \<and> dy * of_bool (mask_up ub v) = 0
             \<and> dy * of_bool (mask_down lb v) = 0" if "v = lb \<or> v = ub"
    using that assms unfolding x_mask_def mask_up_def mask_down_def by auto
  from one route edge show ?thesis by blast
qed

theorem masks_partition_witness:
  "of_bool (x_mask (-1) 2 2) + of_bool (mask_up 2 2) + of_bool (mask_down (-1) 2) = (1::nat)
   \<and> (7::real) * of_bool (x_mask (-1) 2 2) = 7
   \<and> (7::real) * of_bool (mask_up 2 2) = 0
   \<and> (7::real) * of_bool (mask_down (-1) 2) = 0"
proof -
  have h: "(-1::real) \<le> 2" by simp
  show ?thesis
    using masks_partition [OF h, of 2 7] by simp
qed

end
